theory Spec2Isabelle
  imports Main "HOL-Library.Word"
begin

unbundle bit_operations_syntax

section \<open>Library functions used by obfuscate.go\<close>

text \<open>
  A Go string is a sequence of bytes; it is modelled as \<^typ>\<open>string\<close>, a list of
  8-bit characters. The functions of this section are the parts of Go's standard
  library that \<^verbatim>\<open>obfuscate.go\<close> calls (\<^verbatim>\<open>crypto/sha256\<close>, \<^verbatim>\<open>encoding/hex\<close>,
  \<^verbatim>\<open>strings\<close>, \<^verbatim>\<open>regexp\<close>), written out so that every definition computes.
\<close>

subsection \<open>crypto/sha256 and encoding/hex\<close>

type_synonym byte = "8 word"
type_synonym w32 = "32 word"
type_synonym hstate = "w32 \<times> w32 \<times> w32 \<times> w32 \<times> w32 \<times> w32 \<times> w32 \<times> w32"

definition rotr :: "nat \<Rightarrow> w32 \<Rightarrow> w32" where
  "rotr n x = drop_bit n x OR push_bit (32 - n) x"

definition bsig0 :: "w32 \<Rightarrow> w32" where
  "bsig0 x = rotr 2 x XOR rotr 13 x XOR rotr 22 x"

definition bsig1 :: "w32 \<Rightarrow> w32" where
  "bsig1 x = rotr 6 x XOR rotr 11 x XOR rotr 25 x"

definition ssig0 :: "w32 \<Rightarrow> w32" where
  "ssig0 x = rotr 7 x XOR rotr 18 x XOR drop_bit 3 x"

definition ssig1 :: "w32 \<Rightarrow> w32" where
  "ssig1 x = rotr 17 x XOR rotr 19 x XOR drop_bit 10 x"

definition ch :: "w32 \<Rightarrow> w32 \<Rightarrow> w32 \<Rightarrow> w32" where
  "ch x y z = (x AND y) XOR (NOT x AND z)"

definition maj :: "w32 \<Rightarrow> w32 \<Rightarrow> w32 \<Rightarrow> w32" where
  "maj x y z = (x AND y) XOR (x AND z) XOR (y AND z)"

definition sha_K :: "w32 list" where
  "sha_K =
    [1116352408, 1899447441, 3049323471, 3921009573,
     961987163, 1508970993, 2453635748, 2870763221,
     3624381080, 310598401, 607225278, 1426881987,
     1925078388, 2162078206, 2614888103, 3248222580,
     3835390401, 4022224774, 264347078, 604807628,
     770255983, 1249150122, 1555081692, 1996064986,
     2554220882, 2821834349, 2952996808, 3210313671,
     3336571891, 3584528711, 113926993, 338241895,
     666307205, 773529912, 1294757372, 1396182291,
     1695183700, 1986661051, 2177026350, 2456956037,
     2730485921, 2820302411, 3259730800, 3345764771,
     3516065817, 3600352804, 4094571909, 275423344,
     430227734, 506948616, 659060556, 883997877,
     958139571, 1322822218, 1537002063, 1747873779,
     1955562222, 2024104815, 2227730452, 2361852424,
     2428436474, 2756734187, 3204031479, 3329325298]"

definition sha_H0 :: hstate where
  "sha_H0 = (1779033703, 3144134277, 1013904242, 2773480762,
             1359893119, 2600822924, 528734635, 1541459225)"

text \<open>The message schedule: sixteen words of the block, extended to sixty-four.\<close>

fun extend :: "nat \<Rightarrow> w32 list \<Rightarrow> w32 list" where
  "extend 0 ws = ws"
| "extend (Suc n) ws =
     (let i = length ws
      in extend n (ws @ [ssig1 (ws ! (i - 2)) + ws ! (i - 7) + ssig0 (ws ! (i - 15)) + ws ! (i - 16)]))"

fun sha_round :: "hstate \<Rightarrow> w32 \<times> w32 \<Rightarrow> hstate" where
  "sha_round (a, b, c, d, e, f, g, h) (k, w) =
     (let t1 = h + bsig1 e + ch e f g + k + w;
          t2 = bsig0 a + maj a b c
      in (t1 + t2, a, b, c, d + t1, e, f, g))"

fun add_state :: "hstate \<Rightarrow> hstate \<Rightarrow> hstate" where
  "add_state (a, b, c, d, e, f, g, h) (a', b', c', d', e', f', g', h') =
     (a + a', b + b', c + c', d + d', e + e', f + f', g + g', h + h')"

definition compress :: "hstate \<Rightarrow> w32 list \<Rightarrow> hstate" where
  "compress H block = add_state H (foldl sha_round H (zip sha_K (extend 48 block)))"

text \<open>Padding: the byte 0x80, zeros up to 56 modulo 64, the bit length on eight bytes.\<close>

definition be64 :: "64 word \<Rightarrow> byte list" where
  "be64 n = map (\<lambda>i. ucast (drop_bit (8 * i) n)) [7, 6, 5, 4, 3, 2, 1, 0]"

definition pad :: "byte list \<Rightarrow> byte list" where
  "pad m = m @ [0x80] @ replicate ((119 - length m mod 64) mod 64) 0 @ be64 (push_bit 3 (of_nat (length m)))"

fun be_words :: "byte list \<Rightarrow> w32 list" where
  "be_words (a # b # c # d # bs) =
     (push_bit 24 (ucast a) OR push_bit 16 (ucast b) OR push_bit 8 (ucast c) OR ucast d) # be_words bs"
| "be_words _ = []"

fun blocks :: "w32 list \<Rightarrow> w32 list list" where
  "blocks [] = []"
| "blocks (w # ws) = take 16 (w # ws) # blocks (drop 16 (w # ws))"

definition be32 :: "w32 \<Rightarrow> byte list" where
  "be32 w = [ucast (drop_bit 24 w), ucast (drop_bit 16 w), ucast (drop_bit 8 w), ucast w]"

fun digest :: "hstate \<Rightarrow> byte list" where
  "digest (a, b, c, d, e, f, g, h) = concat (map be32 [a, b, c, d, e, f, g, h])"

definition sha256_Sum256 :: "string \<Rightarrow> byte list" where
  "sha256_Sum256 s = digest (foldl compress sha_H0 (blocks (be_words (pad (map of_char s)))))"

definition hexdigit :: "nat \<Rightarrow> char" where
  "hexdigit n = ''0123456789abcdef'' ! (n mod 16)"

definition hex_EncodeToString :: "byte list \<Rightarrow> string" where
  "hex_EncodeToString bs = concat (map (\<lambda>b. [hexdigit (unat b div 16), hexdigit (unat b)]) bs)"

subsection \<open>strings\<close>

definition HasPrefix :: "string \<Rightarrow> string \<Rightarrow> bool" where
  "HasPrefix s p = (take (length p) s = p)"


definition TrimPrefix :: "string \<Rightarrow> string \<Rightarrow> string" where
  "TrimPrefix s p = (if HasPrefix s p then drop (length p) s else s)"

fun Contains :: "string \<Rightarrow> string \<Rightarrow> bool" where
  "Contains [] sub = (sub = [])"
| "Contains (c # cs) sub = (HasPrefix (c # cs) sub \<or> Contains cs sub)"

text \<open>
  \<^verbatim>\<open>strings.Split(s, sep)\<close> for a separator of one byte (the program splits on
  \<^verbatim>\<open>"@"\<close> and \<^verbatim>\<open>":"\<close> only): every occurrence of the separator ends a part, so a
  string with \<open>n\<close> separators gives \<open>n + 1\<close> parts.
\<close>

fun Split :: "string \<Rightarrow> char \<Rightarrow> string list" where
  "Split [] sep = [[]]"
| "Split (c # cs) sep =
     (if c = sep then [] # Split cs sep
      else (case Split cs sep of [] \<Rightarrow> [[c]] | p # ps \<Rightarrow> (c # p) # ps))"

text \<open>\<^verbatim>\<open>strings.SplitN(s, sep, 2)\<close>: cut at the first separator only.\<close>

definition SplitN2 :: "string \<Rightarrow> char \<Rightarrow> string list" where
  "SplitN2 s sep =
     (case dropWhile (\<lambda>c. c \<noteq> sep) s of
        [] \<Rightarrow> [s]
      | _ # rest \<Rightarrow> [takeWhile (\<lambda>c. c \<noteq> sep) s, rest])"

text \<open>
  \<^verbatim>\<open>strings.ToLower\<close> on ASCII letters. Bytes from 0x80 on are left as they are (Go
  also maps non-ASCII upper-case letters; no property below depends on which keys
  are recognised).
\<close>

definition lower_char :: "char \<Rightarrow> char" where
  "lower_char c =
     (case map_of (zip ''ABCDEFGHIJKLMNOPQRSTUVWXYZ'' ''abcdefghijklmnopqrstuvwxyz'') c of
        Some l \<Rightarrow> l
      | None \<Rightarrow> c)"

definition ToLower :: "string \<Rightarrow> string" where
  "ToLower s = map lower_char s"

subsection \<open>regexp\<close>

text \<open>
  The regular expressions of the program use literals, character classes, greedy
  repetition of a character class, optional groups, capture groups, \<^verbatim>\<open>^\<close>, \<^verbatim>\<open>$\<close>
  and \<^verbatim>\<open>\b\<close>. Go's \<^verbatim>\<open>regexp\<close> returns the match a backtracking search finds first
  (leftmost, then greedy), which is what the matcher below computes: it takes the
  alternatives in priority order and calls the continuation on each until one
  succeeds. The Perl classes are the ASCII ones, as in Go.
\<close>

datatype cclass =
    Pos "(char \<times> char) list"  \<comment> \<open>\<^verbatim>\<open>[...]\<close>: a list of inclusive ranges\<close>
  | Neg "(char \<times> char) list"  \<comment> \<open>\<^verbatim>\<open>[^...]\<close>\<close>

definition in_range :: "char \<Rightarrow> char \<times> char \<Rightarrow> bool" where
  "in_range c r = ((of_char (fst r) :: nat) \<le> of_char c \<and> (of_char c :: nat) \<le> of_char (snd r))"

fun in_class :: "cclass \<Rightarrow> char \<Rightarrow> bool" where
  "in_class (Pos rs) c = (\<exists>r \<in> set rs. in_range c r)"
| "in_class (Neg rs) c = (\<not> (\<exists>r \<in> set rs. in_range c r))"

definition one :: "char \<Rightarrow> char \<times> char" where
  "one c = (c, c)"

definition digit :: cclass where  \<comment> \<open>\<^verbatim>\<open>\d\<close>\<close>
  "digit = Pos [(CHR ''0'', CHR ''9'')]"

definition word_class :: cclass where  \<comment> \<open>\<^verbatim>\<open>\w\<close>\<close>
  "word_class = Pos [(CHR ''0'', CHR ''9''), (CHR ''A'', CHR ''Z''), one CHR ''_'', (CHR ''a'', CHR ''z'')]"

definition any_char :: cclass where  \<comment> \<open>\<^verbatim>\<open>.\<close>: any character but the newline\<close>
  "any_char = Neg [one (CHR 0x0A)]"

datatype re =
    Lit string  \<comment> \<open>a literal string\<close>
  | Rep cclass nat "nat option"  \<comment> \<open>\<^verbatim>\<open>c{m,n}\<close>, greedy; no upper bound when \<open>None\<close>\<close>
  | Opt re  \<comment> \<open>\<^verbatim>\<open>r?\<close>, greedy\<close>
  | Grp nat re  \<comment> \<open>capture group with its number\<close>
  | Seq re re
  | Bol  \<comment> \<open>\<^verbatim>\<open>^\<close>\<close>
  | Eol  \<comment> \<open>\<^verbatim>\<open>$\<close>\<close>
  | Wb  \<comment> \<open>\<^verbatim>\<open>\b\<close>\<close>

definition Plus :: "cclass \<Rightarrow> re" where  \<comment> \<open>\<^verbatim>\<open>c+\<close>\<close>
  "Plus c = Rep c 1 None"

definition Star :: "cclass \<Rightarrow> re" where  \<comment> \<open>\<^verbatim>\<open>c*\<close>\<close>
  "Star c = Rep c 0 None"

fun Cat :: "re list \<Rightarrow> re" where
  "Cat [] = Lit []"
| "Cat [r] = r"
| "Cat (r # rs) = Seq r (Cat rs)"

text \<open>
  A matcher state: the character before the current position (\<open>None\<close> at the start
  of the text), the text still to read, and the captures so far (a group that took
  no part in the match reads as the empty string, as in \<^verbatim>\<open>FindStringSubmatch\<close>).
\<close>

type_synonym mstate = "char option \<times> string \<times> (nat \<Rightarrow> string)"

definition is_word :: "char option \<Rightarrow> bool" where
  "is_word p = (case p of None \<Rightarrow> False | Some c \<Rightarrow> in_class word_class c)"

definition next_char :: "string \<Rightarrow> char option" where
  "next_char s = (case s of [] \<Rightarrow> None | c # _ \<Rightarrow> Some c)"

fun rep :: "cclass \<Rightarrow> nat \<Rightarrow> nat option \<Rightarrow> (mstate \<Rightarrow> 'a option) \<Rightarrow> char option \<Rightarrow> (nat \<Rightarrow> string)
    \<Rightarrow> string \<Rightarrow> 'a option" where
  "rep cl lo hi k p g [] = (if lo = 0 then k (p, [], g) else None)"
| "rep cl lo hi k p g (c # cs) =
     (if in_class cl c \<and> hi \<noteq> Some 0 then
        (case rep cl (lo - 1) (map_option (\<lambda>h. h - 1) hi) k (Some c) g cs of
           Some r \<Rightarrow> Some r
         | None \<Rightarrow> if lo = 0 then k (p, c # cs, g) else None)
      else if lo = 0 then k (p, c # cs, g) else None)"

primrec rmatch :: "re \<Rightarrow> (mstate \<Rightarrow> 'a option) \<Rightarrow> mstate \<Rightarrow> 'a option" where
  "rmatch (Lit l) k st =
     (case st of (p, s, g) \<Rightarrow>
        if HasPrefix s l then k (if l = [] then p else Some (last l), drop (length l) s, g) else None)"
| "rmatch (Rep cl lo hi) k st = (case st of (p, s, g) \<Rightarrow> rep cl lo hi k p g s)"
| "rmatch (Opt r) k st = (case rmatch r k st of Some x \<Rightarrow> Some x | None \<Rightarrow> k st)"
| "rmatch (Grp i r) k st =
     (case st of (p, s, g) \<Rightarrow>
        rmatch r (\<lambda>st'. case st' of (p', s', g') \<Rightarrow> k (p', s', g'(i := take (length s - length s') s))) st)"
| "rmatch (Seq r1 r2) k st = rmatch r1 (rmatch r2 k) st"
| "rmatch Bol k st = (case st of (p, s, g) \<Rightarrow> if p = None then k st else None)"
| "rmatch Eol k st = (case st of (p, s, g) \<Rightarrow> if s = [] then k st else None)"
| "rmatch Wb k st =
     (case st of (p, s, g) \<Rightarrow> if is_word p \<noteq> is_word (next_char s) then k st else None)"

text \<open>
  A match attempt at the current position gives the text after the match and the
  captures.
\<close>

definition match_here :: "re \<Rightarrow> char option \<Rightarrow> string \<Rightarrow> (string \<times> (nat \<Rightarrow> string)) option" where
  "match_here r p s = rmatch r (\<lambda>st. case st of (p', s', g) \<Rightarrow> Some (s', g)) (p, s, \<lambda>i. [])"

text \<open>The leftmost match: positions are tried from left to right.\<close>

fun search :: "re \<Rightarrow> char option \<Rightarrow> string \<Rightarrow> (string \<times> string \<times> (nat \<Rightarrow> string)) option" where
  "search r p [] = (case match_here r p [] of None \<Rightarrow> None | Some (s', g) \<Rightarrow> Some ([], s', g))"
| "search r p (c # cs) =
     (case match_here r p (c # cs) of
        Some (s', g) \<Rightarrow> Some (take (length (c # cs) - length s') (c # cs), s', g)
      | None \<Rightarrow> search r (Some c) cs)"

definition MatchString :: "re \<Rightarrow> string \<Rightarrow> bool" where
  "MatchString r s = (search r None s \<noteq> None)"

text \<open>
  \<^verbatim>\<open>FindStringSubmatch\<close>: \<open>None\<close> for Go's \<^verbatim>\<open>nil\<close>; otherwise the function from the
  group number to the captured text, group 0 being the whole match.
\<close>

definition FindStringSubmatch :: "re \<Rightarrow> string \<Rightarrow> (nat \<Rightarrow> string) option" where
  "FindStringSubmatch r s =
     (case search r None s of None \<Rightarrow> None | Some (m, s', g) \<Rightarrow> Some (g(0 := m)))"

text \<open>
  \<^verbatim>\<open>ReplaceAllStringFunc\<close> with a replacement function that reads and updates a
  state (the program's replacement functions use the cache): the matches are
  found from left to right, each search starting where the previous match ended,
  and the replacement function is called on each in turn. An empty match is
  replaced and the scan moves on by one character; every pattern of the program
  needs at least one character (\<open>program_matches_not_empty\<close> below), so the program
  never takes that branch.
\<close>

function ReplaceAllStringFunc ::
    "re \<Rightarrow> ('s \<Rightarrow> string \<Rightarrow> string \<times> 's) \<Rightarrow> 's \<Rightarrow> char option \<Rightarrow> string \<Rightarrow> string \<times> 's" where
  "ReplaceAllStringFunc r f st p s =
     (case match_here r p s of
        None \<Rightarrow>
          (case s of
             [] \<Rightarrow> ([], st)
           | c # cs \<Rightarrow>
               (case ReplaceAllStringFunc r f st (Some c) cs of (out, st') \<Rightarrow> (c # out, st')))
      | Some (s', g) \<Rightarrow>
          if length s' < length s then
            (case f st (take (length s - length s') s) of
               (new, st') \<Rightarrow>
                 (case ReplaceAllStringFunc r f st' (Some (last (take (length s - length s') s))) s' of
                    (out, st'') \<Rightarrow> (new @ out, st'')))
          else
            (case f st [] of
               (new, st') \<Rightarrow>
                 (case s of
                    [] \<Rightarrow> (new, st')
                  | c # cs \<Rightarrow>
                      (case ReplaceAllStringFunc r f st' (Some c) cs of
                         (out, st'') \<Rightarrow> (new @ c # out, st'')))))"
  by pat_completeness auto
termination
  by (relation "measure (\<lambda>(r, f, st, p, s). length s)") auto

text \<open>The least number of characters a match of a pattern takes.\<close>

fun min_len :: "re \<Rightarrow> nat" where
  "min_len (Lit l) = length l"
| "min_len (Rep cl lo hi) = lo"
| "min_len (Opt r) = 0"
| "min_len (Grp i r) = min_len r"
| "min_len (Seq r1 r2) = min_len r1 + min_len r2"
| "min_len Bol = 0"
| "min_len Eol = 0"
| "min_len Wb = 0"

section \<open>The hash oracle\<close>

definition generateConsistentHash :: "string \<Rightarrow> string" where
  "generateConsistentHash v = take 8 (hex_EncodeToString (sha256_Sum256 v))"

section \<open>The cache and the value obfuscators\<close>

text \<open>
  \<^verbatim>\<open>obfuscationCache\<close> is a global \<^verbatim>\<open>map[string]string\<close>. Every function that reads
  or writes it takes the cache and returns its result with the cache after the
  call.
\<close>

type_synonym cache = "string \<rightharpoonup> string"

definition obfuscateIPAddress :: "cache \<Rightarrow> string \<Rightarrow> string \<times> cache" where
  "obfuscateIPAddress c ip =
     (case c ip of
        Some cached \<Rightarrow> (cached, c)
      | None \<Rightarrow>
          (let hash = generateConsistentHash ip;
               obfuscated = ''XXX.XXX.XXX.'' @ take 3 hash
           in (obfuscated, c(ip \<mapsto> obfuscated))))"

definition obfuscateEmail :: "cache \<Rightarrow> string \<Rightarrow> string \<times> cache" where
  "obfuscateEmail c email =
     (case c email of
        Some cached \<Rightarrow> (cached, c)
      | None \<Rightarrow>
          (let parts = Split email CHR ''@''
           in if length parts \<noteq> 2 then (''***OBFUSCATED_EMAIL***'', c)
              else
                (let userHash = generateConsistentHash (parts ! 0);
                     domainHash = generateConsistentHash (parts ! 1);
                     obfuscated = ''user_'' @ take 6 userHash @ ''@domain_'' @ take 6 domainHash @ ''.com''
                 in (obfuscated, c(email \<mapsto> obfuscated)))))"

definition url_ip_host :: re where  \<comment> \<open>\<^verbatim>\<open>^\d+\.\d+\.\d+\.\d+\<close>\<close>
  "url_ip_host =
     Cat [Bol, Plus digit, Lit ''.'', Plus digit, Lit ''.'', Plus digit, Lit ''.'', Plus digit]"

definition obfuscateURL :: "cache \<Rightarrow> string \<Rightarrow> string \<times> cache" where
  "obfuscateURL c url =
     (case c url of
        Some cached \<Rightarrow> (cached, c)
      | None \<Rightarrow>
          (let (protocol, remaining) =
                 (if HasPrefix url ''https://'' then (''https'', TrimPrefix url ''https://'')
                  else if HasPrefix url ''http://'' then (''http'', TrimPrefix url ''http://'')
                  else (''http'', url));
               parts = SplitN2 remaining CHR ''/'';
               host = parts ! 0;
               (obfuscatedHost, c1) =
                 (if MatchString url_ip_host host then
                    (let ipParts = Split host CHR '':'';
                         (h, c') = obfuscateIPAddress c (ipParts ! 0)
                     in (if length ipParts > 1 then h @ '':'' @ ipParts ! 1 else h, c'))
                  else
                    (let hostHash = generateConsistentHash host;
                         hostParts = Split host CHR '':'';
                         h = ''host_'' @ take 6 hostHash @ ''.example.com''
                     in (if length hostParts > 1 then h @ '':'' @ hostParts ! 1 else h, c)));
               obfuscated0 = protocol @ ''://'' @ obfuscatedHost;
               obfuscated = (if length parts > 1 then obfuscated0 @ ''/'' @ parts ! 1 else obfuscated0)
           in (obfuscated, c1(url \<mapsto> obfuscated))))"

definition obfuscatePassword :: "string \<Rightarrow> string" where
  "obfuscatePassword password = (if password = [] then [] else ''***REDACTED***'')"

definition obfuscateAPIKey :: "cache \<Rightarrow> string \<Rightarrow> string \<times> cache" where
  "obfuscateAPIKey c key =
     (if key = [] then ([], c)
      else
        (case c key of
           Some cached \<Rightarrow> (cached, c)
         | None \<Rightarrow>
             (let hash = generateConsistentHash key;
                  obfuscated = ''OBFUSCATED_KEY_'' @ take 8 hash
              in (obfuscated, c(key \<mapsto> obfuscated)))))"

text \<open>
  The two connection-string shapes:
  \<^verbatim>\<open>^(postgres(?:ql)?://)([^:]+):([^@]+)@([^/]+)/([^?]+)(\?.*)?$\<close> and
  \<^verbatim>\<open>^([^:]+):([^@]+)@tcp\(([^)]+)\)/([^?]+)(\?.*)?$\<close>.
\<close>

definition postgresRegex :: re where
  "postgresRegex =
     Cat [Bol,
          Grp 1 (Cat [Lit ''postgres'', Opt (Lit ''ql''), Lit ''://'']),
          Grp 2 (Plus (Neg [one CHR '':''])), Lit '':'',
          Grp 3 (Plus (Neg [one CHR ''@''])), Lit ''@'',
          Grp 4 (Plus (Neg [one CHR ''/''])), Lit ''/'',
          Grp 5 (Plus (Neg [one CHR ''?''])),
          Opt (Grp 6 (Cat [Lit ''?'', Star any_char])),
          Eol]"

definition mysqlRegex :: re where
  "mysqlRegex =
     Cat [Bol,
          Grp 1 (Plus (Neg [one CHR '':''])), Lit '':'',
          Grp 2 (Plus (Neg [one CHR ''@''])), Lit ''@tcp('',
          Grp 3 (Plus (Neg [one CHR '')''])), Lit '')/'',
          Grp 4 (Plus (Neg [one CHR ''?''])),
          Opt (Grp 5 (Cat [Lit ''?'', Star any_char])),
          Eol]"

definition obfuscateDatabaseDSN :: "cache \<Rightarrow> string \<Rightarrow> string \<times> cache" where
  "obfuscateDatabaseDSN c dsn =
     (if dsn = [] then ([], c)
      else
        (case FindStringSubmatch postgresRegex dsn of
           Some matches \<Rightarrow>
             (let protocol = matches 1;
                  username = matches 2;
                  host = matches 4;
                  dbname = matches 5;
                  params = matches 6;
                  obfuscatedUser = ''user_'' @ take 6 (generateConsistentHash username);
                  obfuscatedPass = ''***REDACTED***'';
                  obfuscatedDB = ''db_'' @ take 6 (generateConsistentHash dbname);
                  hostParts = Split host CHR '':'';
                  (h, c') = obfuscateIPAddress c (hostParts ! 0);
                  obfuscatedHost = (if length hostParts > 1 then h @ '':'' @ hostParts ! 1 else h)
              in (protocol @ obfuscatedUser @ '':'' @ obfuscatedPass @ ''@'' @ obfuscatedHost @ ''/''
                    @ obfuscatedDB @ params, c'))
         | None \<Rightarrow>
             (case FindStringSubmatch mysqlRegex dsn of
                Some matches \<Rightarrow>
                  (let username = matches 1;
                       host = matches 3;
                       dbname = matches 4;
                       params = matches 5;
                       obfuscatedUser = ''user_'' @ take 6 (generateConsistentHash username);
                       obfuscatedPass = ''***REDACTED***'';
                       obfuscatedDB = ''db_'' @ take 6 (generateConsistentHash dbname);
                       hostParts = Split host CHR '':'';
                       (h, c') = obfuscateIPAddress c (hostParts ! 0);
                       obfuscatedHost = (if length hostParts > 1 then h @ '':'' @ hostParts ! 1 else h)
                   in (obfuscatedUser @ '':'' @ obfuscatedPass @ ''@tcp('' @ obfuscatedHost @ '')/''
                         @ obfuscatedDB @ params, c'))
              | None \<Rightarrow> (''***REDACTED_DSN***'', c))))"

definition obfuscateUsername :: "cache \<Rightarrow> string \<Rightarrow> string \<times> cache" where
  "obfuscateUsername c username =
     (if username = [] then ([], c)
      else
        (case c username of
           Some cached \<Rightarrow> (cached, c)
         | None \<Rightarrow>
             (let hash = generateConsistentHash username;
                  obfuscated = ''user_'' @ take 8 hash
              in (obfuscated, c(username \<mapsto> obfuscated)))))"

section \<open>The text redactor\<close>

definition alnum :: cclass where  \<comment> \<open>\<^verbatim>\<open>[A-Za-z0-9]\<close>\<close>
  "alnum = Pos [(CHR ''A'', CHR ''Z''), (CHR ''a'', CHR ''z''), (CHR ''0'', CHR ''9'')]"

definition ipv4_pattern :: re where  \<comment> \<open>\<^verbatim>\<open>\b\d{1,3}\.\d{1,3}\.\d{1,3}\.\d{1,3}\b\<close>\<close>
  "ipv4_pattern =
     Cat [Wb, Rep digit 1 (Some 3), Lit ''.'', Rep digit 1 (Some 3), Lit ''.'',
          Rep digit 1 (Some 3), Lit ''.'', Rep digit 1 (Some 3), Wb]"

definition email_pattern :: re where
  \<comment> \<open>\<^verbatim>\<open>\b[A-Za-z0-9._%+-]+@[A-Za-z0-9.-]+\.[A-Z|a-z]{2,}\b\<close>\<close>
  "email_pattern =
     Cat [Wb,
          Plus (Pos [(CHR ''A'', CHR ''Z''), (CHR ''a'', CHR ''z''), (CHR ''0'', CHR ''9''),
                     one CHR ''.'', one CHR ''_'', one CHR ''%'', one CHR ''+'', one CHR ''-'']),
          Lit ''@'',
          Plus (Pos [(CHR ''A'', CHR ''Z''), (CHR ''a'', CHR ''z''), (CHR ''0'', CHR ''9''),
                     one CHR ''.'', one CHR ''-'']),
          Lit ''.'',
          Rep (Pos [(CHR ''A'', CHR ''Z''), one CHR ''|'', (CHR ''a'', CHR ''z'')]) 2 None,
          Wb]"

definition url_pattern :: re where
  \<comment> \<open>\<^verbatim>\<open>https?://[^\s<>"{}|\\^`\[\]]+\<close>; \<^verbatim>\<open>\s\<close> is tab, newline, form feed, return, space\<close>
  "url_pattern =
     Cat [Lit ''http'', Opt (Lit ''s''), Lit ''://'',
          Plus (Neg [one (CHR 0x09), one (CHR 0x0A), one (CHR 0x0C), one (CHR 0x0D), one (CHR 0x20),
                     one CHR ''<'', one CHR ''>'', one (CHR 0x22), one CHR ''{'', one CHR ''}'',
                     one CHR ''|'', one (CHR 0x5C), one CHR ''^'', one (CHR 0x60),
                     one CHR ''['', one CHR '']''])]"

definition token_pattern :: re where  \<comment> \<open>\<^verbatim>\<open>\b[A-Za-z0-9]{32,}\b\<close>\<close>
  "token_pattern = Cat [Wb, Rep alnum 32 None, Wb]"

definition userid_pattern :: re where  \<comment> \<open>\<^verbatim>\<open>\b[a-z0-9]{26}\b\<close>\<close>
  "userid_pattern = Cat [Wb, Rep (Pos [(CHR ''a'', CHR ''z''), (CHR ''0'', CHR ''9'')]) 26 (Some 26), Wb]"

text \<open>The two anonymous replacement functions of \<^verbatim>\<open>ObfuscateLogFile\<close>.\<close>

definition obfuscateToken :: "cache \<Rightarrow> string \<Rightarrow> string \<times> cache" where
  "obfuscateToken c token = (if length token \<ge> 40 then obfuscateAPIKey c token else (token, c))"

definition obfuscateID :: "cache \<Rightarrow> string \<Rightarrow> string \<times> cache" where
  "obfuscateID c ident =
     (case c ident of
        Some cached \<Rightarrow> (cached, c)
      | None \<Rightarrow>
          (let hash = generateConsistentHash ident;
               obfuscatedID = ''id_'' @ hash
           in (obfuscatedID, c(ident \<mapsto> obfuscatedID))))"

text \<open>One rule of the pipeline: a pattern and its replacement function, over the whole text.\<close>

definition apply_rule :: "re \<Rightarrow> (cache \<Rightarrow> string \<Rightarrow> string \<times> cache) \<Rightarrow> string \<times> cache \<Rightarrow> string \<times> cache" where
  "apply_rule r f tc = (case tc of (text, c) \<Rightarrow> ReplaceAllStringFunc r f c None text)"

text \<open>The substitution sequence of \<^verbatim>\<open>ObfuscateLogFile\<close>, in the order of the source.\<close>

definition obfuscateLogText :: "cache \<Rightarrow> string \<Rightarrow> string \<times> cache" where
  "obfuscateLogText c content =
     apply_rule userid_pattern obfuscateID
       (apply_rule token_pattern obfuscateToken
         (apply_rule url_pattern obfuscateURL
           (apply_rule email_pattern obfuscateEmail
             (apply_rule ipv4_pattern obfuscateIPAddress (content, c)))))"

section \<open>The structured-data redactor\<close>

text \<open>
  \<^verbatim>\<open>json.Unmarshal\<close> into an \<^verbatim>\<open>interface{}\<close> gives \<^verbatim>\<open>nil\<close>, \<^verbatim>\<open>bool\<close>, \<^verbatim>\<open>float64\<close>,
  \<^verbatim>\<open>string\<close>, \<^verbatim>\<open>[]interface{}\<close> or \<^verbatim>\<open>map[string]interface{}\<close>. The type of numbers
  is a parameter: the redactor never looks at one. An object is the list of its
  key/value pairs in the order in which \<^verbatim>\<open>range\<close> visits them; Go leaves that order
  open, and every result below holds for every order.
\<close>

datatype 'n json =
    JNull
  | JBool bool
  | JNumber 'n
  | JString string
  | JArray "'n json list"
  | JObject "(string \<times> 'n json) list"

definition ip_anywhere :: re where  \<comment> \<open>\<^verbatim>\<open>\d+\.\d+\.\d+\.\d+\<close>\<close>
  "ip_anywhere = Cat [Plus digit, Lit ''.'', Plus digit, Lit ''.'', Plus digit, Lit ''.'', Plus digit]"

text \<open>The \<^verbatim>\<open>switch\<close> on the key of a string value: the first case that holds is taken.\<close>

definition obfuscateField :: "cache \<Rightarrow> string \<Rightarrow> string \<Rightarrow> string \<times> cache" where
  "obfuscateField c key strValue =
     (let lowerKey = ToLower key in
      if Contains lowerKey ''password'' then (obfuscatePassword strValue, c)
      else if Contains lowerKey ''secret'' then obfuscateAPIKey c strValue
      else if Contains lowerKey ''apikey'' \<or> Contains lowerKey ''api_key'' then obfuscateAPIKey c strValue
      else if Contains lowerKey ''token'' then obfuscateAPIKey c strValue
      else if Contains lowerKey ''key'' \<and> strValue \<noteq> [] \<and> length strValue > 10 then obfuscateAPIKey c strValue
      else if Contains lowerKey ''salt'' then obfuscateAPIKey c strValue
      else if lowerKey = ''datasource'' \<or> lowerKey = ''connectionurl'' then obfuscateDatabaseDSN c strValue
      else if Contains lowerKey ''url'' \<and> (HasPrefix strValue ''http://'' \<or> HasPrefix strValue ''https://'')
        then obfuscateURL c strValue
      else if Contains lowerKey ''email'' \<and> Contains strValue ''@'' then obfuscateEmail c strValue
      else if Contains lowerKey ''username'' \<and> strValue \<noteq> [] then obfuscateUsername c strValue
      else if lowerKey = ''siteurl'' then obfuscateURL c strValue
      else if Contains lowerKey ''address'' \<or> Contains lowerKey ''host'' then
        (if MatchString ip_anywhere strValue
         then ReplaceAllStringFunc ip_anywhere obfuscateIPAddress c None strValue
         else (strValue, c))
      else (strValue, c))"

text \<open>
  \<^verbatim>\<open>obfuscateConfigData\<close> changes the tree in place; here it returns the new tree.
  For a string value the call \<^verbatim>\<open>obfuscateConfigData(value)\<close> that follows the
  \<^verbatim>\<open>switch\<close> does nothing, so only the other values are visited recursively.
\<close>

fun obfuscateConfigData :: "cache \<Rightarrow> 'n json \<Rightarrow> 'n json \<times> cache"
  and obfuscateMembers :: "cache \<Rightarrow> (string \<times> 'n json) list \<Rightarrow> (string \<times> 'n json) list \<times> cache"
  and obfuscateItems :: "cache \<Rightarrow> 'n json list \<Rightarrow> 'n json list \<times> cache" where
  "obfuscateConfigData c (JObject kvs) =
     (case obfuscateMembers c kvs of (kvs', c') \<Rightarrow> (JObject kvs', c'))"
| "obfuscateConfigData c (JArray xs) =
     (case obfuscateItems c xs of (xs', c') \<Rightarrow> (JArray xs', c'))"
| "obfuscateConfigData c JNull = (JNull, c)"
| "obfuscateConfigData c (JBool b) = (JBool b, c)"
| "obfuscateConfigData c (JNumber n) = (JNumber n, c)"
| "obfuscateConfigData c (JString s) = (JString s, c)"
| "obfuscateMembers c [] = ([], c)"
| "obfuscateMembers c ((key, JString strValue) # kvs) =
     (case obfuscateField c key strValue of
        (new, c1) \<Rightarrow>
          (case obfuscateMembers c1 kvs of (kvs', c2) \<Rightarrow> ((key, JString new) # kvs', c2)))"
| "obfuscateMembers c ((key, value) # kvs) =
     (case obfuscateConfigData c value of
        (value', c1) \<Rightarrow>
          (case obfuscateMembers c1 kvs of (kvs', c2) \<Rightarrow> ((key, value') # kvs', c2)))"
| "obfuscateItems c [] = ([], c)"
| "obfuscateItems c (item # items) =
     (case obfuscateConfigData c item of
        (item', c1) \<Rightarrow>
          (case obfuscateItems c1 items of (items', c2) \<Rightarrow> (item' # items', c2)))"

section \<open>Files and the directory dispatcher\<close>

datatype LogLevel = debugLevel | infoLevel | warningLevel | errorLevel

text \<open>
  The state the file functions work on: what the operating system answers to each
  call (an error is the text of its message), the cache, the lines logged so far
  (\<^verbatim>\<open>LogMessage\<close> prints them) and the global \<^verbatim>\<open>debugMode\<close>.
\<close>

record world =
  os_Open :: "string \<Rightarrow> string option"  \<comment> \<open>the error of \<^verbatim>\<open>os.Open\<close>, if it fails\<close>
  io_ReadAll :: "string \<Rightarrow> string + string"  \<comment> \<open>the error or the contents\<close>
  write_error :: "string \<Rightarrow> string option"  \<comment> \<open>the error of \<^verbatim>\<open>os.WriteFile\<close>, if it fails\<close>
  os_ReadDir :: "string \<Rightarrow> string + (string \<times> bool) list"  \<comment> \<open>entries: name and \<^verbatim>\<open>IsDir\<close>\<close>
  cache :: cache
  logged :: "(LogLevel \<times> string) list"
  debugMode :: bool

text \<open>
  The two functions of \<^verbatim>\<open>encoding/json\<close> that \<^verbatim>\<open>ObfuscateConfigFile\<close> calls are
  parameters; an error is the text of its message.
\<close>

record 'n json_lib =
  Unmarshal :: "string \<Rightarrow> string + 'n json"
  MarshalIndent :: "'n json \<Rightarrow> string + string"

definition LogMessage :: "world \<Rightarrow> LogLevel \<Rightarrow> string \<Rightarrow> world" where
  "LogMessage w level message = w\<lparr>logged := logged w @ [(level, message)]\<rparr>"

definition DebugPrint :: "world \<Rightarrow> string \<Rightarrow> world" where
  "DebugPrint w message = (if debugMode w then LogMessage w debugLevel message else w)"


text \<open>A write that fails leaves the file as it was; one that succeeds replaces the contents.\<close>

definition os_WriteFile :: "world \<Rightarrow> string \<Rightarrow> string \<Rightarrow> string option \<times> world" where
  "os_WriteFile w path data =
     (case write_error w path of
        Some e \<Rightarrow> (Some e, w)
      | None \<Rightarrow> (None, w\<lparr>io_ReadAll := (io_ReadAll w)(path := Inr data)\<rparr>))"

definition ObfuscateConfigFile :: "'n json_lib \<Rightarrow> world \<Rightarrow> string \<Rightarrow> string option \<times> world" where
  "ObfuscateConfigFile L w filepath =
     (let w0 = DebugPrint w (''Obfuscating config file: '' @ filepath) in
      case os_Open w0 filepath of
        Some e \<Rightarrow> (Some (''failed to open config file: '' @ e), w0)
      | None \<Rightarrow>
          (case io_ReadAll w0 filepath of
             Inl e \<Rightarrow> (Some (''failed to read config file: '' @ e), w0)
           | Inr byteValue \<Rightarrow>
               (case Unmarshal L byteValue of
                  Inl e \<Rightarrow> (Some (''failed to parse config JSON: '' @ e), w0)
                | Inr config \<Rightarrow>
                    (case obfuscateConfigData (cache w0) config of
                       (config', c') \<Rightarrow>
                         (let w1 = w0\<lparr>cache := c'\<rparr> in
                          case MarshalIndent L config' of
                            Inl e \<Rightarrow> (Some (''failed to marshal obfuscated config: '' @ e), w1)
                          | Inr obfuscatedJSON \<Rightarrow>
                              (case os_WriteFile w1 filepath obfuscatedJSON of
                                 (Some e, w2) \<Rightarrow> (Some (''failed to write obfuscated config: '' @ e), w2)
                               | (None, w2) \<Rightarrow>
                                   (None, LogMessage w2 infoLevel ''Config file obfuscated successfully'')))))))"




section \<open>The structure of a value tree\<close>






section \<open>Placeholder formats\<close>

text \<open>
  A format is a list of pieces, each a literal text or a given number of lower-case
  hexadecimal digits; a string fits a format when it is exactly the pieces in a row.
\<close>

datatype piece = Txt string | Hex nat

definition is_hex :: "char \<Rightarrow> bool" where
  "is_hex c = (c \<in> set ''0123456789abcdef'')"

fun fits :: "piece list \<Rightarrow> string \<Rightarrow> bool" where
  "fits [] s = (s = [])"
| "fits (Txt l # ps) s = (HasPrefix s l \<and> fits ps (drop (length l) s))"
| "fits (Hex n # ps) s = (n \<le> length s \<and> list_all is_hex (take n s) \<and> fits ps (drop n s))"

definition ip_format :: "string \<Rightarrow> bool" where
  "ip_format s = fits [Txt ''XXX.XXX.XXX.'', Hex 3] s"

definition email_format :: "string \<Rightarrow> bool" where
  "email_format s = fits [Txt ''user_'', Hex 6, Txt ''@domain_'', Hex 6, Txt ''.com''] s"

definition key_format :: "string \<Rightarrow> bool" where
  "key_format s = fits [Txt ''OBFUSCATED_KEY_'', Hex 8] s"

section \<open>Warnings of the dispatcher, and a small world\<close>


text \<open>
  For the examples: a decoder that accepts the text \<^verbatim>\<open>{}\<close> only, with an encoder
  that prints it, and a directory \<^verbatim>\<open>/tmp/packet\<close> with a subdirectory, a
  configuration file that does not parse, a log file and a file that is skipped.
\<close>

definition example_lib :: "int json_lib" where
  "example_lib =
     \<lparr>Unmarshal = (\<lambda>s. if s = ''{}'' then Inr (JObject []) else Inl ''unexpected end of JSON input''),
      MarshalIndent = (\<lambda>t. Inr ''{}'')\<rparr>"

definition example_world :: world where
  "example_world =
     \<lparr>os_Open = (\<lambda>p. None),
      io_ReadAll = (\<lambda>p. if p = ''/tmp/packet/config.json'' then Inr ''{not json''
                          else if p = ''/tmp/packet/mattermost.log'' then Inr ''user abcdefghijklmnopqrstuvwxyz''
                          else if p = ''/tmp/packet/notes.md'' then Inr ''10.0.0.1''
                          else if p = ''/tmp/other/config.json'' then Inr ''{}''
                          else Inl ''is a directory''),
      write_error = (\<lambda>p. None),
      os_ReadDir = (\<lambda>d. if d = ''/tmp/packet''
                          then Inr [(''sub'', True), (''config.json'', False), (''mattermost.log'', False),
                                    (''notes.md'', False)]
                          else Inl ''no such file or directory''),
      cache = Map.empty, logged = [], debugMode = False\<rparr>"


section \<open>Properties of the hash oracle and of the string functions\<close>

lemma length_digest: "length (digest H) = 32"
proof -
  obtain a b c d e f g h where "H = (a, b, c, d, e, f, g, h)"
    by (metis surj_pair)
  then show ?thesis by (simp add: be32_def)
qed

lemma length_hex_EncodeToString: "length (hex_EncodeToString bs) = 2 * length bs"
  by (induction bs) (simp_all add: hex_EncodeToString_def)

lemma is_hex_hexdigit: "is_hex (hexdigit n)"
proof -
  have "n mod 16 < length ''0123456789abcdef''" by simp
  then have "''0123456789abcdef'' ! (n mod 16) \<in> set ''0123456789abcdef''"
    by (rule nth_mem)
  then show ?thesis by (simp only: is_hex_def hexdigit_def)
qed

lemma hex_EncodeToString_hex: "list_all is_hex (hex_EncodeToString bs)"
  by (induction bs) (simp_all add: hex_EncodeToString_def is_hex_hexdigit)

lemma length_generateConsistentHash: "length (generateConsistentHash v) = 8"
  by (simp add: generateConsistentHash_def length_hex_EncodeToString sha256_Sum256_def length_digest)

lemma generateConsistentHash_hex: "list_all is_hex (generateConsistentHash v)"
  unfolding generateConsistentHash_def list_all_iff
  using hex_EncodeToString_hex [of "sha256_Sum256 v"]
  by (auto simp: list_all_iff dest: in_set_takeD)

lemma take_hash_hex: "list_all is_hex (take n (generateConsistentHash v))"
  using generateConsistentHash_hex [of v] by (auto simp: list_all_iff dest: in_set_takeD)

lemma ip_format_hash: "ip_format (''XXX.XXX.XXX.'' @ take 3 (generateConsistentHash v))"
  by (simp add: ip_format_def HasPrefix_def length_generateConsistentHash take_hash_hex)

lemma key_format_hash: "key_format (''OBFUSCATED_KEY_'' @ take 8 (generateConsistentHash v))"
  by (simp add: key_format_def HasPrefix_def length_generateConsistentHash generateConsistentHash_hex)

lemma email_format_hash:
  "email_format (''user_'' @ take 6 (generateConsistentHash u) @ ''@domain_'' @ take 6 (generateConsistentHash d) @ ''.com'')"
  by (simp add: email_format_def HasPrefix_def length_generateConsistentHash take_hash_hex)

lemma length_Split: "length (Split s sep) = Suc (count_list s sep)"
  by (induction s) (auto split: list.splits)

lemma Split_one:
  "count_list s sep = 1 \<Longrightarrow>
   Split s sep = [takeWhile (\<lambda>c. c \<noteq> sep) s, tl (dropWhile (\<lambda>c. c \<noteq> sep) s)]"
proof (induction s)
  case Nil
  then show ?case by simp
next
  case (Cons c cs)
  show ?case
  proof (cases "c = sep")
    case True
    with Cons.prems have "count_list cs sep = 0" by simp
    then have "sep \<notin> set cs" by (simp add: count_list_0_iff)
    then have "Split cs sep = [cs]"
      by (induction cs) (auto split: list.splits)
    with True show ?thesis by simp
  next
    case False
    with Cons.prems have "count_list cs sep = 1" by simp
    with Cons.IH False show ?thesis by simp
  qed
qed

section \<open>Properties of the matcher\<close>

lemmas re_defs = FindStringSubmatch_def MatchString_def match_here_def Plus_def Star_def
  one_def any_char_def in_range_def HasPrefix_def digit_def is_word_def next_char_def word_class_def

lemma rep_consumes:
  "rep cl lo hi k p g s = Some x \<Longrightarrow>
   \<exists>p' s' g'. k (p', s', g') = Some x \<and> length s' + lo \<le> length s"
proof (induction s arbitrary: lo hi p)
  case Nil
  then have "k (p, [], g) = Some x \<and> length ([] :: string) + lo \<le> length ([] :: string)"
    by (auto split: if_splits)
  then show ?case by blast
next
  case (Cons c cs)
  show ?case
  proof (cases "rep cl (lo - 1) (map_option (\<lambda>h. h - 1) hi) k (Some c) g cs = Some x
      \<and> in_class cl c \<and> hi \<noteq> Some 0")
    case True
    then obtain p' s' g' where "k (p', s', g') = Some x" and "length s' + (lo - 1) \<le> length cs"
      using Cons.IH by blast
    then have "k (p', s', g') = Some x \<and> length s' + lo \<le> length (c # cs)" by auto
    then show ?thesis by blast
  next
    case False
    with Cons.prems have "lo = 0 \<and> k (p, c # cs, g) = Some x"
      by (auto split: if_splits option.splits)
    then have "k (p, c # cs, g) = Some x \<and> length (c # cs) + lo \<le> length (c # cs)" by simp
    then show ?thesis by blast
  qed
qed

lemma rmatch_consumes:
  "rmatch r k (p, s, g) = Some x \<Longrightarrow>
   \<exists>p' s' g'. k (p', s', g') = Some x \<and> length s' + min_len r \<le> length s"
proof (induction r arbitrary: k p s g x)
  case (Lit l)
  then have pre: "take (length l) s = l" and k: "k (if l = [] then p else Some (last l), drop (length l) s, g) = Some x"
    by (auto simp: HasPrefix_def split: if_splits)
  from pre have "length (take (length l) s) = length l" by simp
  then have "length l \<le> length s" by simp
  then have "length (drop (length l) s) + min_len (Lit l) \<le> length s" by simp
  with k show ?case by blast
next
  case (Rep cl lo hi)
  then show ?case using rep_consumes [of cl lo hi k p g s x] by simp
next
  case (Opt r)
  show ?case
  proof (cases "rmatch r k (p, s, g)")
    case None
    with Opt.prems have "k (p, s, g) = Some x \<and> length s + min_len (Opt r) \<le> length s" by simp
    then show ?thesis by blast
  next
    case (Some y)
    with Opt.prems have "rmatch r k (p, s, g) = Some x" by simp
    from Opt.IH [OF this] obtain p' s' g' where
      "k (p', s', g') = Some x" and "length s' + min_len r \<le> length s"
      by blast
    then have "k (p', s', g') = Some x \<and> length s' + min_len (Opt r) \<le> length s" by simp
    then show ?thesis by blast
  qed
next
  case (Grp i r)
  from Grp.prems have "rmatch r (\<lambda>st'. case st' of (p', s', g') \<Rightarrow> k (p', s', g'(i := take (length s - length s') s))) (p, s, g) = Some x"
    by simp
  from Grp.IH [OF this] obtain p' s' g' where
    "k (p', s', g'(i := take (length s - length s') s)) = Some x" and "length s' + min_len r \<le> length s"
    by auto
  then have "k (p', s', g'(i := take (length s - length s') s)) = Some x
      \<and> length s' + min_len (Grp i r) \<le> length s" by simp
  then show ?case by blast
next
  case (Seq r1 r2)
  from Seq.prems have "rmatch r1 (rmatch r2 k) (p, s, g) = Some x" by simp
  from Seq.IH(1) [OF this] obtain p1 s1 g1 where
    one: "rmatch r2 k (p1, s1, g1) = Some x" and l1: "length s1 + min_len r1 \<le> length s"
    by blast
  from Seq.IH(2) [OF one] obtain p2 s2 g2 where
    "k (p2, s2, g2) = Some x" and "length s2 + min_len r2 \<le> length s1"
    by blast
  with l1 have "k (p2, s2, g2) = Some x \<and> length s2 + min_len (Seq r1 r2) \<le> length s" by simp
  then show ?case by blast
next
  case Bol
  then have "k (p, s, g) = Some x \<and> length s + min_len Bol \<le> length s"
    by (auto split: if_splits)
  then show ?case by blast
next
  case Eol
  then have "k (p, s, g) = Some x \<and> length s + min_len Eol \<le> length s"
    by (auto split: if_splits)
  then show ?case by blast
next
  case Wb
  then have "k (p, s, g) = Some x \<and> length s + min_len Wb \<le> length s"
    by (auto split: if_splits)
  then show ?case by blast
qed

lemma match_here_consumes:
  "match_here r p s = Some (s', g) \<Longrightarrow> length s' + min_len r \<le> length s"
  unfolding match_here_def by (drule rmatch_consumes) auto

lemma patterns_need_a_character:
  "0 < min_len ipv4_pattern" "0 < min_len email_pattern" "0 < min_len url_pattern"
  "0 < min_len token_pattern" "0 < min_len userid_pattern" "0 < min_len ip_anywhere"
  by (simp_all add: ipv4_pattern_def email_pattern_def url_pattern_def token_pattern_def
      userid_pattern_def ip_anywhere_def Plus_def)

lemma program_matches_not_empty:
  assumes "r \<in> {ipv4_pattern, email_pattern, url_pattern, token_pattern, userid_pattern, ip_anywhere}"
    and "match_here r p s = Some (s', g)"
  shows "length s' < length s"
proof -
  from assms(1) have "0 < min_len r" using patterns_need_a_character by auto
  with match_here_consumes [OF assms(2)] show ?thesis by simp
qed

text \<open>One step of the replacement scan, for a position without a match and for a match.\<close>

lemma Replace_no_match_Cons:
  "match_here r p (x # xs) = None \<Longrightarrow>
   ReplaceAllStringFunc r f st p (x # xs)
     = (case ReplaceAllStringFunc r f st (Some x) xs of (out, st') \<Rightarrow> (x # out, st'))"
  by (subst ReplaceAllStringFunc.simps) simp

lemma Replace_no_match_Nil:
  "match_here r p [] = None \<Longrightarrow> ReplaceAllStringFunc r f st p [] = ([], st)"
  by (subst ReplaceAllStringFunc.simps) simp

lemma Replace_match:
  "match_here r p (m @ rest) = Some (rest, g) \<Longrightarrow> m \<noteq> [] \<Longrightarrow>
   ReplaceAllStringFunc r f st p (m @ rest)
     = (case f st m of (new, st') \<Rightarrow>
          (case ReplaceAllStringFunc r f st' (Some (last m)) rest of (out, st'') \<Rightarrow> (new @ out, st'')))"
  by (subst ReplaceAllStringFunc.simps) simp

section \<open>The email obfuscator\<close>

text \<open>
  Claim C2, as the code has it. \<^verbatim>\<open>strings.Split\<close> cuts at every \<^verbatim>\<open>@\<close>, not at the
  first one only. For an input that is not yet a key of the cache: when the input
  has exactly one \<^verbatim>\<open>@\<close>, \<^verbatim>\<open>obfuscateEmail\<close> returns
  \<^verbatim>\<open>user_<6 hex>@domain_<6 hex>.com\<close>, the first fingerprint being that of the text
  before the \<^verbatim>\<open>@\<close> and the second that of the text after it, and stores the
  placeholder in the cache; when the input has no \<^verbatim>\<open>@\<close> or more than one, it
  returns the sentinel \<^verbatim>\<open>***OBFUSCATED_EMAIL***\<close> and leaves the cache as it was.
\<close>

theorem obfuscateEmail_exactly_one_at:
  assumes "c email = None"
  shows "obfuscateEmail c email =
     (if count_list email CHR ''@'' = 1 then
        (let placeholder =
               ''user_'' @ take 6 (generateConsistentHash (takeWhile (\<lambda>x. x \<noteq> CHR ''@'') email))
               @ ''@domain_''
               @ take 6 (generateConsistentHash (tl (dropWhile (\<lambda>x. x \<noteq> CHR ''@'') email)))
               @ ''.com''
         in (placeholder, c(email \<mapsto> placeholder)))
      else (''***OBFUSCATED_EMAIL***'', c))"
proof (cases "count_list email CHR ''@'' = 1")
  case True
  then show ?thesis
    using assms by (simp add: obfuscateEmail_def Split_one Let_def)
next
  case False
  then have "length (Split email CHR ''@'') \<noteq> 2"
    by (simp add: length_Split)
  with False show ?thesis
    using assms by (simp add: obfuscateEmail_def Let_def)
qed

theorem obfuscateEmail_exactly_one_at_witness:
  "obfuscateEmail Map.empty ''bob@example.org'' =
     (''user_'' @ take 6 (generateConsistentHash ''bob'') @ ''@domain_''
        @ take 6 (generateConsistentHash ''example.org'') @ ''.com'',
      [''bob@example.org'' \<mapsto>
        ''user_'' @ take 6 (generateConsistentHash ''bob'') @ ''@domain_''
        @ take 6 (generateConsistentHash ''example.org'') @ ''.com''])
   \<and> obfuscateEmail Map.empty ''nobody'' = (''***OBFUSCATED_EMAIL***'', Map.empty)"
  using obfuscateEmail_exactly_one_at [of Map.empty "''bob@example.org''"]
    obfuscateEmail_exactly_one_at [of Map.empty "''nobody''"]
  by (simp add: Let_def)

text \<open>
  Claim C2 as stated fails on an input with two \<^verbatim>\<open>@\<close>: it contains an \<^verbatim>\<open>@\<close>, and
  the result is the sentinel, not a placeholder of the email format.
\<close>

theorem obfuscateEmail_two_ats:
  "CHR ''@'' \<in> set ''a@b@c''
   \<and> fst (obfuscateEmail Map.empty ''a@b@c'') = ''***OBFUSCATED_EMAIL***''
   \<and> \<not> email_format (fst (obfuscateEmail Map.empty ''a@b@c''))"
  by (simp add: obfuscateEmail_def email_format_def HasPrefix_def)

section \<open>The connection-string parser\<close>

text \<open>
  Claim C3, as the code has it. The empty string is returned as it is, before any
  shape is tried. Every other string that matches neither the PostgreSQL shape nor
  the MySQL shape is replaced by \<^verbatim>\<open>***REDACTED_DSN***\<close>, and the cache is not
  touched.
\<close>

theorem obfuscateDatabaseDSN_unrecognised:
  assumes "dsn \<noteq> []"
    and "FindStringSubmatch postgresRegex dsn = None"
    and "FindStringSubmatch mysqlRegex dsn = None"
  shows "obfuscateDatabaseDSN c dsn = (''***REDACTED_DSN***'', c)"
  using assms by (simp add: obfuscateDatabaseDSN_def)

lemma sqlite_not_postgres: "FindStringSubmatch postgresRegex ''sqlite:///tmp/db.sqlite'' = None"
  by (simp add: re_defs postgresRegex_def)

lemma sqlite_not_mysql: "FindStringSubmatch mysqlRegex ''sqlite:///tmp/db.sqlite'' = None"
  by (simp add: re_defs mysqlRegex_def)

theorem obfuscateDatabaseDSN_unrecognised_witness:
  "''sqlite:///tmp/db.sqlite'' \<noteq> []
   \<and> FindStringSubmatch postgresRegex ''sqlite:///tmp/db.sqlite'' = None
   \<and> FindStringSubmatch mysqlRegex ''sqlite:///tmp/db.sqlite'' = None
   \<and> obfuscateDatabaseDSN Map.empty ''sqlite:///tmp/db.sqlite'' = (''***REDACTED_DSN***'', Map.empty)"
  using obfuscateDatabaseDSN_unrecognised [OF _ sqlite_not_postgres sqlite_not_mysql, of Map.empty]
    sqlite_not_postgres sqlite_not_mysql
  by simp

text \<open>
  Claim C3 as stated fails on the empty string: it matches neither shape, and the
  result is the empty string, not the sentinel.
\<close>

theorem obfuscateDatabaseDSN_empty:
  "FindStringSubmatch postgresRegex [] = None \<and> FindStringSubmatch mysqlRegex [] = None
   \<and> obfuscateDatabaseDSN Map.empty [] = ([], Map.empty)
   \<and> fst (obfuscateDatabaseDSN Map.empty []) \<noteq> ''***REDACTED_DSN***''"
  by (simp add: re_defs postgresRegex_def mysqlRegex_def obfuscateDatabaseDSN_def)

section \<open>Format of the placeholders\<close>

text \<open>
  Claim C6, as the code has it. The obfuscators look the input up in the cache
  first and return what they find, whichever obfuscator stored it. For every
  string (so for every IPv4-shaped one) that is not yet a key of the cache, or whose
  entry is the one \<^verbatim>\<open>obfuscateIPAddress\<close> itself makes, \<^verbatim>\<open>obfuscateIPAddress\<close> returns
  a string of the form \<^verbatim>\<open>XXX.XXX.XXX.[0-9a-f]{3}\<close>; for every input with exactly one
  \<^verbatim>\<open>@\<close> that is not yet a key of the cache, or whose entry is the one
  \<^verbatim>\<open>obfuscateEmail\<close> itself makes, \<^verbatim>\<open>obfuscateEmail\<close> returns a string of the form
  \<^verbatim>\<open>user_[0-9a-f]{6}@domain_[0-9a-f]{6}\.com\<close>.
\<close>

theorem format_on_fresh_or_own_entry:
  "(c ip = None \<or> c ip = Some (fst (obfuscateIPAddress Map.empty ip))
      \<longrightarrow> ip_format (fst (obfuscateIPAddress c ip)))
   \<and> (count_list email CHR ''@'' = 1
      \<longrightarrow> c email = None \<or> c email = Some (fst (obfuscateEmail Map.empty email))
      \<longrightarrow> email_format (fst (obfuscateEmail c email)))"
proof (intro conjI impI)
  assume "c ip = None \<or> c ip = Some (fst (obfuscateIPAddress Map.empty ip))"
  then show "ip_format (fst (obfuscateIPAddress c ip))"
    by (auto simp: obfuscateIPAddress_def Let_def ip_format_hash [simplified])
next
  assume one: "count_list email CHR ''@'' = 1"
    and "c email = None \<or> c email = Some (fst (obfuscateEmail Map.empty email))"
  then show "email_format (fst (obfuscateEmail c email))"
    by (auto simp: obfuscateEmail_def Let_def length_Split email_format_hash [simplified])
qed

theorem format_on_fresh_or_own_entry_witness:
  "MatchString ipv4_pattern ''10.0.0.1''
   \<and> ip_format (fst (obfuscateIPAddress Map.empty ''10.0.0.1''))
   \<and> email_format (fst (obfuscateEmail Map.empty ''bob@example.org''))"
  using format_on_fresh_or_own_entry [of Map.empty "''10.0.0.1''" "''bob@example.org''"]
  by (simp add: re_defs ipv4_pattern_def)

text \<open>
  Claim C6 as stated fails when another obfuscator has stored the same string
  before: after \<^verbatim>\<open>obfuscateUsername\<close> on \<^verbatim>\<open>10.0.0.1\<close> (a value of a field whose key
  contains \<^verbatim>\<open>username\<close>), \<^verbatim>\<open>obfuscateIPAddress\<close> on that IPv4-shaped string returns
  the username placeholder.
\<close>

theorem ip_format_lost_on_foreign_entry:
  "MatchString ipv4_pattern ''10.0.0.1''
   \<and> fst (obfuscateIPAddress (snd (obfuscateUsername Map.empty ''10.0.0.1'')) ''10.0.0.1'')
       = ''user_'' @ take 8 (generateConsistentHash ''10.0.0.1'')
   \<and> \<not> ip_format (fst (obfuscateIPAddress (snd (obfuscateUsername Map.empty ''10.0.0.1'')) ''10.0.0.1''))"
  by (simp add: re_defs ipv4_pattern_def obfuscateUsername_def obfuscateIPAddress_def Let_def
      ip_format_def)

section \<open>The cache\<close>

text \<open>
  Claim C10, as the code has it. The cache is keyed by the original string alone.
  For every string that is a key of the cache, \<^verbatim>\<open>obfuscateIPAddress\<close>,
  \<^verbatim>\<open>obfuscateEmail\<close>, \<^verbatim>\<open>obfuscateURL\<close> and the identifier rewriter return the cached
  placeholder as it is and leave the cache unchanged; \<^verbatim>\<open>obfuscateAPIKey\<close> and
  \<^verbatim>\<open>obfuscateUsername\<close> do so for every non-empty string (they return the empty
  string for the empty string before they look at the cache). After a call of
  \<^verbatim>\<open>obfuscateIPAddress\<close>, \<^verbatim>\<open>obfuscateURL\<close> or the identifier rewriter on a string, and
  after a call of \<^verbatim>\<open>obfuscateAPIKey\<close> or \<^verbatim>\<open>obfuscateUsername\<close> on a non-empty
  string, the cache maps the string to the placeholder returned, and so it does
  after a call of \<^verbatim>\<open>obfuscateEmail\<close> on a string that was a key already or has
  exactly one \<^verbatim>\<open>@\<close>; so a later call of another kind on that string returns the
  first kind's placeholder.
\<close>

theorem cache_keyed_by_string_alone:
  "(c s = Some p \<longrightarrow>
      obfuscateIPAddress c s = (p, c) \<and> obfuscateEmail c s = (p, c)
      \<and> obfuscateURL c s = (p, c) \<and> obfuscateID c s = (p, c)
      \<and> (s \<noteq> [] \<longrightarrow> obfuscateAPIKey c s = (p, c) \<and> obfuscateUsername c s = (p, c)))
   \<and> snd (obfuscateIPAddress c s) s = Some (fst (obfuscateIPAddress c s))
   \<and> snd (obfuscateURL c s) s = Some (fst (obfuscateURL c s))
   \<and> snd (obfuscateID c s) s = Some (fst (obfuscateID c s))
   \<and> (s \<noteq> [] \<longrightarrow>
        snd (obfuscateAPIKey c s) s = Some (fst (obfuscateAPIKey c s))
        \<and> snd (obfuscateUsername c s) s = Some (fst (obfuscateUsername c s)))
   \<and> (c s \<noteq> None \<or> count_list s CHR ''@'' = 1 \<longrightarrow>
        snd (obfuscateEmail c s) s = Some (fst (obfuscateEmail c s)))"
proof -
  have hit: "c s = Some p \<longrightarrow>
      obfuscateIPAddress c s = (p, c) \<and> obfuscateEmail c s = (p, c)
      \<and> obfuscateURL c s = (p, c) \<and> obfuscateID c s = (p, c)
      \<and> (s \<noteq> [] \<longrightarrow> obfuscateAPIKey c s = (p, c) \<and> obfuscateUsername c s = (p, c))"
    by (simp add: obfuscateIPAddress_def obfuscateEmail_def obfuscateURL_def obfuscateID_def
        obfuscateAPIKey_def obfuscateUsername_def)
  have ip: "snd (obfuscateIPAddress c s) s = Some (fst (obfuscateIPAddress c s))"
    by (simp add: obfuscateIPAddress_def Let_def split: option.splits)
  have url: "snd (obfuscateURL c s) s = Some (fst (obfuscateURL c s))"
    by (simp add: obfuscateURL_def Let_def split: option.splits prod.splits)
  have ident: "snd (obfuscateID c s) s = Some (fst (obfuscateID c s))"
    by (simp add: obfuscateID_def Let_def split: option.splits)
  have key: "s \<noteq> [] \<longrightarrow> snd (obfuscateAPIKey c s) s = Some (fst (obfuscateAPIKey c s))"
    by (simp add: obfuscateAPIKey_def Let_def split: option.splits)
  have user: "s \<noteq> [] \<longrightarrow> snd (obfuscateUsername c s) s = Some (fst (obfuscateUsername c s))"
    by (simp add: obfuscateUsername_def Let_def split: option.splits)
  have email: "c s \<noteq> None \<or> count_list s CHR ''@'' = 1 \<longrightarrow>
      snd (obfuscateEmail c s) s = Some (fst (obfuscateEmail c s))"
    by (auto simp: obfuscateEmail_def Let_def length_Split split: option.splits)
  from hit ip url ident key user email show ?thesis by blast
qed

text \<open>
  An instance: the username obfuscator stores \<^verbatim>\<open>10.0.0.2\<close>, and the IP obfuscator
  then returns the username placeholder, which is not of the IP format.
\<close>

theorem cache_keyed_by_string_alone_witness:
  "obfuscateIPAddress (snd (obfuscateUsername Map.empty ''10.0.0.2'')) ''10.0.0.2''
     = (fst (obfuscateUsername Map.empty ''10.0.0.2''), snd (obfuscateUsername Map.empty ''10.0.0.2''))
   \<and> \<not> ip_format (fst (obfuscateUsername Map.empty ''10.0.0.2''))"
proof -
  have stored: "snd (obfuscateUsername Map.empty ''10.0.0.2'') ''10.0.0.2''
      = Some (fst (obfuscateUsername Map.empty ''10.0.0.2''))"
    using cache_keyed_by_string_alone [of Map.empty "''10.0.0.2''"] by simp
  have "obfuscateIPAddress (snd (obfuscateUsername Map.empty ''10.0.0.2'')) ''10.0.0.2''
     = (fst (obfuscateUsername Map.empty ''10.0.0.2''), snd (obfuscateUsername Map.empty ''10.0.0.2''))"
    using cache_keyed_by_string_alone [of "snd (obfuscateUsername Map.empty ''10.0.0.2'')"
        "''10.0.0.2''" "fst (obfuscateUsername Map.empty ''10.0.0.2'')"] stored
    by blast
  moreover have "\<not> ip_format (fst (obfuscateUsername Map.empty ''10.0.0.2''))"
    by (simp add: obfuscateUsername_def Let_def ip_format_def HasPrefix_def)
  ultimately show ?thesis by blast
qed

text \<open>
  Claim C10 as stated fails on the empty string. \<^verbatim>\<open>obfuscateURL\<close> on the empty
  string (the value of \<^verbatim>\<open>SiteURL\<close> in a default configuration) stores a placeholder
  under the empty key; \<^verbatim>\<open>obfuscateAPIKey\<close> and \<^verbatim>\<open>obfuscateUsername\<close> on the empty
  string still return the empty string.
\<close>

theorem empty_key_not_returned:
  "snd (obfuscateURL Map.empty []) []
     = Some (''http://host_'' @ take 6 (generateConsistentHash []) @ ''.example.com'')
   \<and> obfuscateAPIKey (snd (obfuscateURL Map.empty [])) [] = ([], snd (obfuscateURL Map.empty []))
   \<and> obfuscateUsername (snd (obfuscateURL Map.empty [])) [] = ([], snd (obfuscateURL Map.empty []))
   \<and> Some (fst (obfuscateAPIKey (snd (obfuscateURL Map.empty [])) [])) \<noteq> snd (obfuscateURL Map.empty []) []"
  by (simp add: re_defs url_ip_host_def obfuscateURL_def obfuscateAPIKey_def obfuscateUsername_def
      Let_def SplitN2_def TrimPrefix_def)

section \<open>Determinism within a run\<close>

text \<open>
  Claim C5 does not hold for \<^verbatim>\<open>obfuscateEmail\<close>: the sentinel it returns for an
  input that does not split in two is not stored in the cache. In the
  configuration below the same value \<^verbatim>\<open>a@b@c\<close> appears under an \<^verbatim>\<open>Email\<close> key, then
  under a \<^verbatim>\<open>Username\<close> key, then under an \<^verbatim>\<open>Email\<close> key again (the elements of an
  array are visited in order). The first call of \<^verbatim>\<open>obfuscateEmail\<close> returns the
  sentinel; the username obfuscator then stores its placeholder under the same
  string; the second call of \<^verbatim>\<open>obfuscateEmail\<close> returns that placeholder.
\<close>

theorem email_not_repeatable:
  "fst (obfuscateConfigData Map.empty
     (JObject [(''Users'', JArray
        [JObject [(''Email'', JString ''a@b@c'')],
         JObject [(''Username'', JString ''a@b@c'')],
         JObject [(''Email'', JString ''a@b@c'')]])]))
   = JObject [(''Users'', JArray
        [JObject [(''Email'', JString ''***OBFUSCATED_EMAIL***'')],
         JObject [(''Username'', JString (''user_'' @ take 8 (generateConsistentHash ''a@b@c'')))],
         JObject [(''Email'', JString (''user_'' @ take 8 (generateConsistentHash ''a@b@c'')))]])]"
  by (simp add: obfuscateField_def ToLower_def lower_char_def HasPrefix_def obfuscateEmail_def
      obfuscateUsername_def Let_def)

text \<open>
  A cache entry can also be replaced. \<^verbatim>\<open>obfuscateURL\<close> on a bare address calls
  \<^verbatim>\<open>obfuscateIPAddress\<close> on the same string, which stores the IP placeholder (the
  host of the \<^verbatim>\<open>SiteURL\<close> below), and then stores the URL placeholder under that
  string: the later call of \<^verbatim>\<open>obfuscateIPAddress\<close> on the same address, for the
  \<^verbatim>\<open>Host\<close> field, returns the URL placeholder.
\<close>

lemma ip_entry_replaced_by_url_entry:
  "fst (obfuscateConfigData Map.empty
     (JObject [(''Nodes'', JArray
        [JObject [(''SiteURL'', JString ''10.1.2.3'')],
         JObject [(''Host'', JString ''10.1.2.3'')]])]))
   = JObject [(''Nodes'', JArray
        [JObject [(''SiteURL'', JString (''http://XXX.XXX.XXX.'' @ take 3 (generateConsistentHash ''10.1.2.3'')))],
         JObject [(''Host'', JString (''http://XXX.XXX.XXX.'' @ take 3 (generateConsistentHash ''10.1.2.3'')))]])]"
  by (simp add: obfuscateField_def ToLower_def lower_char_def re_defs ip_anywhere_def url_ip_host_def
      obfuscateURL_def obfuscateIPAddress_def SplitN2_def TrimPrefix_def Let_def
      Replace_no_match_Nil Replace_match [where m="''10.1.2.3''" and rest="[]", simplified])

section \<open>Structure preservation\<close>






lemma DebugPrint_os [simp]:
  "os_Open (DebugPrint w m) = os_Open w" "io_ReadAll (DebugPrint w m) = io_ReadAll w"
  "write_error (DebugPrint w m) = write_error w" "os_ReadDir (DebugPrint w m) = os_ReadDir w"
  "cache (DebugPrint w m) = cache w"
  by (simp_all add: DebugPrint_def LogMessage_def)




section \<open>A file that does not parse\<close>

text \<open>
  Claim C9. When the file can be opened and read and \<^verbatim>\<open>json.Unmarshal\<close> rejects its
  contents, \<^verbatim>\<open>ObfuscateConfigFile\<close> returns the error
  \<^verbatim>\<open>failed to parse config JSON: ...\<close> and writes nothing: every file has the
  contents it had, and the cache is unchanged.
\<close>

theorem parse_failure_writes_nothing:
  assumes "os_Open w path = None" and "io_ReadAll w path = Inr content"
    and "Unmarshal L content = Inl e"
  shows "fst (ObfuscateConfigFile L w path) = Some (''failed to parse config JSON: '' @ e)
    \<and> io_ReadAll (snd (ObfuscateConfigFile L w path)) = io_ReadAll w
    \<and> cache (snd (ObfuscateConfigFile L w path)) = cache w"
  using assms by (simp add: ObfuscateConfigFile_def Let_def)

theorem parse_failure_writes_nothing_witness:
  "fst (ObfuscateConfigFile example_lib example_world ''/tmp/packet/config.json'')
     = Some ''failed to parse config JSON: unexpected end of JSON input''
   \<and> io_ReadAll (snd (ObfuscateConfigFile example_lib example_world ''/tmp/packet/config.json''))
        ''/tmp/packet/config.json'' = Inr ''{not json''"
  using parse_failure_writes_nothing [of example_world "''/tmp/packet/config.json''" "''{not json''"
      example_lib "''unexpected end of JSON input''"]
  by (simp add: example_world_def example_lib_def)

section \<open>The directory dispatcher\<close>

lemma logged_DebugPrint: "set (logged w) \<subseteq> set (logged (DebugPrint w m))"
  by (auto simp: DebugPrint_def LogMessage_def)









section \<open>The long-token rule\<close>

lemma alnum_word: "in_class alnum x \<Longrightarrow> in_class word_class x"
  by (auto simp: alnum_def word_class_def in_range_def one_def)

text \<open>
  The repetition of the token pattern followed by its closing \<^verbatim>\<open>\b\<close>, on a stretch
  of alphanumeric characters that ends the text or is followed by another
  character: it takes the whole stretch or fails.
\<close>

lemma rep_token:
  assumes k: "\<And>p s g. k (p, s, g) = (if is_word p \<noteq> is_word (next_char s) then Some (s, g) else None)"
    and "list_all (in_class alnum) xs"
    and "rest = [] \<or> \<not> in_class alnum (hd rest)"
    and "lo = 0 \<longrightarrow> is_word p"
  shows "rep alnum lo None k p g (xs @ rest)
     = (if lo \<le> length xs \<and> \<not> is_word (next_char rest) then Some (rest, g) else None)"
  using assms(2-)
proof (induction xs arbitrary: lo p)
  case Nil
  show ?case
  proof (cases rest)
    case Nil
    with Nil.prems show ?thesis by (simp add: k)
  next
    case (Cons d t)
    with Nil.prems have "\<not> in_class alnum d" by simp
    with Cons Nil.prems show ?thesis by (simp add: k)
  qed
next
  case (Cons x xs)
  from Cons.prems(1) have x: "in_class alnum x" and xs: "list_all (in_class alnum) xs"
    by simp_all
  from x have wx: "is_word (Some x)"
    by (simp add: is_word_def alnum_word)
  have inner: "rep alnum (lo - 1) None k (Some x) g (xs @ rest)
      = (if lo - 1 \<le> length xs \<and> \<not> is_word (next_char rest) then Some (rest, g) else None)"
    using xs Cons.prems(2) wx by (intro Cons.IH) simp_all
  have here: "k (p, x # xs @ rest, g) = None" if "lo = 0"
    using that Cons.prems(3) wx by (simp add: k next_char_def)
  have le: "lo - 1 \<le> length xs \<longleftrightarrow> lo \<le> length (x # xs)"
    by auto
  show ?case
  proof (cases "lo \<le> length (x # xs) \<and> \<not> is_word (next_char rest)")
    case True
    with inner le have "rep alnum (lo - 1) None k (Some x) g (xs @ rest) = Some (rest, g)"
      by simp
    with x True show ?thesis by simp
  next
    case False
    with inner le have none: "rep alnum (lo - 1) None k (Some x) g (xs @ rest) = None"
      by auto
    show ?thesis
    proof (cases "lo = 0")
      case True
      with x none here False show ?thesis by simp
    next
      case nz: False
      with x none False show ?thesis by simp
    qed
  qed
qed

lemma token_match:
  "match_here token_pattern p s =
     (if \<not> is_word p \<and> 32 \<le> length (takeWhile (in_class alnum) s)
         \<and> \<not> is_word (next_char (dropWhile (in_class alnum) s))
      then Some (dropWhile (in_class alnum) s, \<lambda>i. []) else None)"
proof -
  let ?run = "takeWhile (in_class alnum) s" and ?rest = "dropWhile (in_class alnum) s"
  let ?K = "rmatch Wb (\<lambda>st. case st of (p', s', g) \<Rightarrow> Some (s', g))"
  have all: "list_all (in_class alnum) ?run"
    by (simp add: list_all_iff) (meson set_takeWhileD)
  have stop: "?rest = [] \<or> \<not> in_class alnum (hd ?rest)"
    by (metis hd_dropWhile)
  have "rep alnum 32 None ?K p (\<lambda>i. []) (?run @ ?rest)
      = (if 32 \<le> length ?run \<and> \<not> is_word (next_char ?rest) then Some (?rest, \<lambda>i. []) else None)"
    by (rule rep_token [OF _ all stop]) simp_all
  then have r: "rep alnum 32 None ?K p (\<lambda>i. []) s
      = (if 32 \<le> length ?run \<and> \<not> is_word (next_char ?rest) then Some (?rest, \<lambda>i. []) else None)"
    by simp
  have first: "is_word (next_char s)" if "32 \<le> length ?run"
  proof (cases s)
    case Nil
    with that show ?thesis by simp
  next
    case (Cons x xs)
    with that have "in_class alnum x" by (auto split: if_splits)
    with Cons show ?thesis by (simp add: next_char_def is_word_def alnum_word)
  qed
  show ?thesis
    using r first by (auto simp: match_here_def token_pattern_def)
qed


lemma token_no_match_Nil: "match_here token_pattern p [] = None"
  by (simp add: token_match)

lemma token_match_local:
  assumes "\<exists>x \<in> set xs. \<not> in_class alnum x"
  shows "match_here token_pattern p (xs @ rest)
     = (case match_here token_pattern p xs of None \<Rightarrow> None | Some (s', g) \<Rightarrow> Some (s' @ rest, g))"
proof -
  from assms have t: "takeWhile (in_class alnum) (xs @ rest) = takeWhile (in_class alnum) xs"
    by auto
  from assms have d: "dropWhile (in_class alnum) (xs @ rest) = dropWhile (in_class alnum) xs @ rest"
    by auto
  from assms have "dropWhile (in_class alnum) xs \<noteq> []"
    by auto
  then have n: "next_char (dropWhile (in_class alnum) xs @ rest) = next_char (dropWhile (in_class alnum) xs)"
    by (cases "dropWhile (in_class alnum) xs") (simp_all add: next_char_def)
  show ?thesis
    by (simp add: token_match t d n)
qed

lemma token_match_parts:
  assumes "match_here token_pattern p xs = Some (s', g)"
  shows "xs = takeWhile (in_class alnum) xs @ s'" and "takeWhile (in_class alnum) xs \<noteq> []"
    and "s' = dropWhile (in_class alnum) xs"
  using assms by (auto simp: token_match split: if_splits)

lemma token_rule_append:
  assumes "xs = [] \<or> \<not> in_class word_class (last xs)"
  shows "ReplaceAllStringFunc token_pattern f c p (xs @ rest)
     = (case ReplaceAllStringFunc token_pattern f c p xs of
          (out, c') \<Rightarrow>
            (case ReplaceAllStringFunc token_pattern f c' (if xs = [] then p else Some (last xs)) rest of
               (out', c'') \<Rightarrow> (out @ out', c'')))"
  using assms
proof (induction xs arbitrary: c p rule: length_induct)
  case (1 xs)
  show ?case
  proof (cases xs)
    case Nil
    then show ?thesis
      by (simp add: Replace_no_match_Nil token_no_match_Nil del: ReplaceAllStringFunc.simps split: prod.splits)
  next
    case (Cons x xs')
    with "1.prems" have last_nw: "\<not> in_class word_class (last xs)" by simp
    then have last_na: "\<not> in_class alnum (last xs)" using alnum_word by blast
    from Cons have "last xs \<in> set xs" by simp
    with last_na have ex: "\<exists>y \<in> set xs. \<not> in_class alnum y" by blast
    note loc = token_match_local [OF ex, of p rest]
    show ?thesis
    proof (cases "match_here token_pattern p xs")
      case None
      with loc have none': "match_here token_pattern p (x # xs' @ rest) = None"
        using Cons by simp
      from None Cons have none: "match_here token_pattern p (x # xs') = None" by simp
      have tail: "xs' = [] \<or> \<not> in_class word_class (last xs')"
        using last_nw Cons by (cases xs') simp_all
      have "length xs' < length xs" using Cons by simp
      with "1.IH" tail have ih: "ReplaceAllStringFunc token_pattern f c (Some x) (xs' @ rest)
          = (case ReplaceAllStringFunc token_pattern f c (Some x) xs' of
               (out, c') \<Rightarrow>
                 (case ReplaceAllStringFunc token_pattern f c' (if xs' = [] then Some x else Some (last xs')) rest of
                    (out', c'') \<Rightarrow> (out @ out', c'')))"
        by blast
      have lastx: "(if xs' = [] then Some x else Some (last xs')) = Some (last (x # xs'))"
        by simp
      show ?thesis
        unfolding Cons
        by (simp only: append_Cons Replace_no_match_Cons [OF none] Replace_no_match_Cons [OF none'] ih lastx)
          (simp del: ReplaceAllStringFunc.simps split: prod.splits)
    next
      case (Some a)
      then obtain s' g where m: "match_here token_pattern p xs = Some (s', g)"
        by (cases a) simp
      let ?m = "takeWhile (in_class alnum) xs"
      from token_match_parts [OF m] have xs_eq: "xs = ?m @ s'" and m_ne: "?m \<noteq> []"
        and s'_eq: "s' = dropWhile (in_class alnum) xs"
        by simp_all
      from ex s'_eq have s'_ne: "s' \<noteq> []"
        by auto
      from xs_eq s'_ne have last_s': "last s' = last xs"
        by (metis last_appendR)
      from m xs_eq have m1: "match_here token_pattern p (?m @ s') = Some (s', g)"
        by simp
      from loc m xs_eq have m2: "match_here token_pattern p (?m @ (s' @ rest)) = Some (s' @ rest, g)"
        by (metis (no_types, lifting) append.assoc option.simps(5) prod.simps(2))
      from xs_eq m_ne have "length s' < length xs"
        by (metis append_eq_conv_conj length_drop diff_less length_greater_0_conv Cons list.distinct(1))
      moreover have "s' = [] \<or> \<not> in_class word_class (last s')"
        using last_s' last_nw by simp
      ultimately have ih: "ReplaceAllStringFunc token_pattern f c1 (Some (last ?m)) (s' @ rest)
          = (case ReplaceAllStringFunc token_pattern f c1 (Some (last ?m)) s' of
               (out, c') \<Rightarrow>
                 (case ReplaceAllStringFunc token_pattern f c' (if s' = [] then Some (last ?m) else Some (last s')) rest of
                    (out', c'') \<Rightarrow> (out @ out', c'')))" for c1
        using "1.IH" by blast
      have whole: "ReplaceAllStringFunc token_pattern f c p (xs @ rest)
          = ReplaceAllStringFunc token_pattern f c p (?m @ (s' @ rest))"
        using xs_eq by (metis append.assoc)
      have part: "ReplaceAllStringFunc token_pattern f c p xs
          = ReplaceAllStringFunc token_pattern f c p (?m @ s')"
        using xs_eq by simp
      have nonempty: "xs \<noteq> []" using Cons by simp
      show ?thesis
        unfolding whole part
        by (simp only: Replace_match [OF m1 m_ne] Replace_match [OF m2 m_ne] ih)
          (simp add: s'_ne last_s' nonempty del: ReplaceAllStringFunc.simps split: prod.splits)
    qed
  qed
qed

lemma token_match_run:
  assumes run: "list_all (in_class alnum) run" and len: "32 \<le> length run"
    and post: "post = [] \<or> \<not> in_class word_class (hd post)"
    and prev: "\<not> is_word p"
  shows "match_here token_pattern p (run @ post) = Some (post, \<lambda>i. [])"
proof -
  have stop: "post = [] \<or> \<not> in_class alnum (hd post)"
    using post alnum_word by blast
  have t: "takeWhile (in_class alnum) (run @ post) = run"
  proof (cases post)
    case Nil
    with run show ?thesis by (simp add: list_all_iff)
  next
    case (Cons d t)
    with stop have "\<not> in_class alnum d" by simp
    with run Cons show ?thesis by (simp add: list_all_iff takeWhile_tail)
  qed
  have d: "dropWhile (in_class alnum) (run @ post) = post"
  proof (cases post)
    case Nil
    with run show ?thesis by (simp add: list_all_iff)
  next
    case (Cons d t)
    with stop have "\<not> in_class alnum d" by simp
    with run Cons show ?thesis by (simp add: list_all_iff)
  qed
  have after: "\<not> is_word (next_char post)"
    using post by (cases post) (simp_all add: next_char_def is_word_def)
  show ?thesis
    using prev len after by (simp add: token_match t d)
qed

lemma token_rule_on_run:
  assumes "pre = [] \<or> \<not> in_class word_class (last pre)"
    and "list_all (in_class alnum) run"
    and "32 \<le> length run"
    and "post = [] \<or> \<not> in_class word_class (hd post)"
    and "apply_rule token_pattern f (pre, c) = (before, c1)"
    and "ReplaceAllStringFunc token_pattern f (snd (f c1 run)) (Some (last run)) post = (after, c3)"
  shows "apply_rule token_pattern f (pre @ run @ post, c) = (before @ fst (f c1 run) @ after, c3)"
proof -
  let ?q = "if pre = [] then None else Some (last pre)"
  from assms(3) have nonempty: "run \<noteq> []" by auto
  have "\<not> is_word ?q"
    using assms(1) by (auto simp: is_word_def)
  then have m: "match_here token_pattern ?q (run @ post) = Some (post, \<lambda>i. [])"
    by (rule token_match_run [OF assms(2) assms(3) assms(4)])
  have at_run: "ReplaceAllStringFunc token_pattern f c1 ?q (run @ post) = (fst (f c1 run) @ after, c3)"
    using Replace_match [OF m nonempty, of f c1] assms(6)
    by (simp del: ReplaceAllStringFunc.simps split: prod.splits)
  from assms(5) have pre: "ReplaceAllStringFunc token_pattern f c None pre = (before, c1)"
    by (simp add: apply_rule_def)
  show ?thesis
    using token_rule_append [OF assms(1), of f c None "run @ post"] pre at_run
    by (simp add: apply_rule_def del: ReplaceAllStringFunc.simps)
qed

text \<open>
  Claim C7, as the code has it. Take a text \<open>pre @ run @ post\<close> in which \<open>run\<close> is a
  run of at least 32 alphanumeric characters, \<open>pre\<close> does not end and \<open>post\<close> does
  not start with a word character. The long-token rule rewrites \<open>pre\<close> as it would
  on its own, calls its replacement function on \<open>run\<close>, and goes on with \<open>post\<close>.
  The replacement function leaves a run of 32 to 39 characters (so one of exactly
  39) unchanged, and the cache with it. It passes a run of at least 40 characters
  to \<^verbatim>\<open>obfuscateAPIKey\<close>: a run that is not yet a key of the cache is rewritten to
  \<^verbatim>\<open>OBFUSCATED_KEY_<8 hex>\<close> and stored; a run that is a key of the cache is
  rewritten to its cached placeholder.
\<close>

theorem token_threshold:
  assumes "pre = [] \<or> \<not> in_class word_class (last pre)"
    and "list_all (in_class alnum) run"
    and "32 \<le> length run"
    and "post = [] \<or> \<not> in_class word_class (hd post)"
    and "apply_rule token_pattern obfuscateToken (pre, c) = (before, c1)"
    and "ReplaceAllStringFunc token_pattern obfuscateToken (snd (obfuscateToken c1 run)) (Some (last run)) post
         = (after, c3)"
  shows "apply_rule token_pattern obfuscateToken (pre @ run @ post, c)
       = (before @ fst (obfuscateToken c1 run) @ after, c3)
     \<and> obfuscateToken c1 run =
         (if length run \<le> 39 then (run, c1)
          else
            (case c1 run of
               None \<Rightarrow>
                 (''OBFUSCATED_KEY_'' @ take 8 (generateConsistentHash run),
                  c1(run \<mapsto> ''OBFUSCATED_KEY_'' @ take 8 (generateConsistentHash run)))
             | Some cached \<Rightarrow> (cached, c1)))
     \<and> key_format (''OBFUSCATED_KEY_'' @ take 8 (generateConsistentHash run))"
proof -
  from assms(3) have "run \<noteq> []" by auto
  then have "obfuscateToken c1 run =
         (if length run \<le> 39 then (run, c1)
          else
            (case c1 run of
               None \<Rightarrow>
                 (''OBFUSCATED_KEY_'' @ take 8 (generateConsistentHash run),
                  c1(run \<mapsto> ''OBFUSCATED_KEY_'' @ take 8 (generateConsistentHash run)))
             | Some cached \<Rightarrow> (cached, c1)))"
    by (simp add: obfuscateToken_def obfuscateAPIKey_def Let_def not_le split: option.splits)
  with token_rule_on_run [OF assms] key_format_hash [of run] show ?thesis
    by blast
qed


theorem token_threshold_witness:
  "apply_rule token_pattern obfuscateToken
     (''key='' @ ''aaaaaaaaaabbbbbbbbbbccccccccccddddddddd'' @ '' ok'', Map.empty)
     = (''key='' @ ''aaaaaaaaaabbbbbbbbbbccccccccccddddddddd'' @ '' ok'', Map.empty)
   \<and> apply_rule token_pattern obfuscateToken
     (''key='' @ ''aaaaaaaaaabbbbbbbbbbccccccccccdddddddddd'' @ '' ok'', Map.empty)
     = (''key='' @ (''OBFUSCATED_KEY_''
          @ take 8 (generateConsistentHash ''aaaaaaaaaabbbbbbbbbbccccccccccdddddddddd'')) @ '' ok'',
        [''aaaaaaaaaabbbbbbbbbbccccccccccdddddddddd'' \<mapsto>
           ''OBFUSCATED_KEY_'' @ take 8 (generateConsistentHash ''aaaaaaaaaabbbbbbbbbbccccccccccdddddddddd'')])"
proof -
  let ?r39 = "''aaaaaaaaaabbbbbbbbbbccccccccccddddddddd''"
  let ?r40 = "''aaaaaaaaaabbbbbbbbbbccccccccccdddddddddd''"
  let ?key = "''OBFUSCATED_KEY_'' @ take 8 (generateConsistentHash ?r40)"
  have pre: "''key='' = [] \<or> \<not> in_class word_class (last ''key='')"
    and post: "'' ok'' = [] \<or> \<not> in_class word_class (hd '' ok'')"
    by (simp_all add: word_class_def in_range_def one_def)
  have r39: "list_all (in_class alnum) ?r39" "32 \<le> length ?r39"
    and r40: "list_all (in_class alnum) ?r40" "32 \<le> length ?r40"
    by (simp_all add: alnum_def in_range_def)
  have before: "apply_rule token_pattern obfuscateToken (''key='', c) = (''key='', c)" for c
    by (simp add: apply_rule_def token_match Replace_no_match_Cons Replace_no_match_Nil
        is_word_def next_char_def word_class_def alnum_def in_range_def one_def)
  have after: "ReplaceAllStringFunc token_pattern obfuscateToken c (Some CHR ''d'') '' ok'' = ('' ok'', c)" for c
    by (simp add: token_match Replace_no_match_Cons Replace_no_match_Nil
        is_word_def next_char_def word_class_def alnum_def in_range_def one_def)
  have t39: "obfuscateToken Map.empty ?r39 = (?r39, Map.empty)"
    and t40: "obfuscateToken Map.empty ?r40 = (?key, [?r40 \<mapsto> ?key])"
    by (simp_all add: obfuscateToken_def obfuscateAPIKey_def Let_def)
  have a: "apply_rule token_pattern obfuscateToken (''key='' @ ?r39 @ '' ok'', Map.empty)
      = (''key='' @ fst (obfuscateToken Map.empty ?r39) @ '' ok'', Map.empty)"
    using token_threshold [OF pre r39 post before [of Map.empty], of "'' ok''" Map.empty] after t39
    by simp
  have b: "apply_rule token_pattern obfuscateToken (''key='' @ ?r40 @ '' ok'', Map.empty)
      = (''key='' @ fst (obfuscateToken Map.empty ?r40) @ '' ok'', [?r40 \<mapsto> ?key])"
    using token_threshold [OF pre r40 post before [of Map.empty], of "'' ok''" "[?r40 \<mapsto> ?key]"] after t40
    by simp
  from a b t39 t40 show ?thesis by simp
qed

text \<open>
  Claim C7 as stated fails for a run that another obfuscator has stored before:
  after \<^verbatim>\<open>obfuscateUsername\<close> on a run of 40 characters, the long-token rule
  rewrites the run to the username placeholder, which is not of the form
  \<^verbatim>\<open>OBFUSCATED_KEY_<8 hex>\<close>.
\<close>

theorem long_token_gets_cached_username:
  "length ''aaaaaaaaaabbbbbbbbbbccccccccccdddddddddd'' = 40
   \<and> fst (apply_rule token_pattern obfuscateToken
          (''aaaaaaaaaabbbbbbbbbbccccccccccdddddddddd'',
           snd (obfuscateUsername Map.empty ''aaaaaaaaaabbbbbbbbbbccccccccccdddddddddd'')))
       = ''user_'' @ take 8 (generateConsistentHash ''aaaaaaaaaabbbbbbbbbbccccccccccdddddddddd'')
   \<and> \<not> key_format (''user_'' @ take 8 (generateConsistentHash ''aaaaaaaaaabbbbbbbbbbccccccccccdddddddddd''))"
proof -
  let ?r40 = "''aaaaaaaaaabbbbbbbbbbccccccccccdddddddddd''"
  let ?c = "snd (obfuscateUsername Map.empty ?r40)"
  have r40: "list_all (in_class alnum) ?r40" "32 \<le> length ?r40"
    by (simp_all add: alnum_def in_range_def)
  have before: "apply_rule token_pattern obfuscateToken ([], ?c) = ([], ?c)"
    by (simp add: apply_rule_def Replace_no_match_Nil token_no_match_Nil)
  have after: "ReplaceAllStringFunc token_pattern obfuscateToken (snd (obfuscateToken ?c ?r40))
      (Some (last ?r40)) [] = ([], snd (obfuscateToken ?c ?r40))"
    by (simp only: Replace_no_match_Nil token_no_match_Nil)
  have "apply_rule token_pattern obfuscateToken ([] @ ?r40 @ [], ?c)
      = ([] @ fst (obfuscateToken ?c ?r40) @ [], snd (obfuscateToken ?c ?r40))"
    by (rule token_rule_on_run [OF _ r40 _ before after]) simp_all
  then show ?thesis
    by (simp add: obfuscateToken_def obfuscateAPIKey_def obfuscateUsername_def Let_def
        key_format_def HasPrefix_def)
qed

section \<open>The pipeline on a line with an address inside a URL\<close>

text \<open>The four fingerprints of the example, computed.\<close>

lemma hash_ip: "generateConsistentHash ''192.168.1.100'' = ''2a39f1ee''"
  by code_simp

lemma hash_admin: "generateConsistentHash ''admin'' = ''8c6976e5''"
  by code_simp

lemma hash_domain: "generateConsistentHash ''example.com'' = ''a379a6f6''"
  by code_simp

lemma hash_host: "generateConsistentHash ''XXX.XXX.XXX.2a3:8065'' = ''cc454c75''"
  by code_simp

lemmas pass_defs = apply_rule_def alnum_def url_ip_host_def SplitN2_def TrimPrefix_def Let_def

lemma pass_ipv4:
  "apply_rule ipv4_pattern obfuscateIPAddress
     (''Connected from 192.168.1.100 as admin@example.com via https://192.168.1.100:8065/api'', Map.empty)
   = (''Connected from XXX.XXX.XXX.2a3 as admin@example.com via https://XXX.XXX.XXX.2a3:8065/api'',
      [''192.168.1.100'' \<mapsto> ''XXX.XXX.XXX.2a3''])"
  by (simp add: pass_defs re_defs ipv4_pattern_def obfuscateIPAddress_def hash_ip)

lemma pass_email:
  "apply_rule email_pattern obfuscateEmail
     (''Connected from XXX.XXX.XXX.2a3 as admin@example.com via https://XXX.XXX.XXX.2a3:8065/api'',
      [''192.168.1.100'' \<mapsto> ''XXX.XXX.XXX.2a3''])
   = (''Connected from XXX.XXX.XXX.2a3 as user_8c6976@domain_a379a6.com via https://XXX.XXX.XXX.2a3:8065/api'',
      [''192.168.1.100'' \<mapsto> ''XXX.XXX.XXX.2a3'',
       ''admin@example.com'' \<mapsto> ''user_8c6976@domain_a379a6.com''])"
  by (simp add: pass_defs re_defs email_pattern_def obfuscateEmail_def hash_admin hash_domain)

lemma pass_url:
  "apply_rule url_pattern obfuscateURL
     (''Connected from XXX.XXX.XXX.2a3 as user_8c6976@domain_a379a6.com via https://XXX.XXX.XXX.2a3:8065/api'',
      [''192.168.1.100'' \<mapsto> ''XXX.XXX.XXX.2a3'',
       ''admin@example.com'' \<mapsto> ''user_8c6976@domain_a379a6.com''])
   = (''Connected from XXX.XXX.XXX.2a3 as user_8c6976@domain_a379a6.com via https://host_cc454c.example.com:8065/api'',
      [''192.168.1.100'' \<mapsto> ''XXX.XXX.XXX.2a3'',
       ''admin@example.com'' \<mapsto> ''user_8c6976@domain_a379a6.com'',
       ''https://XXX.XXX.XXX.2a3:8065/api'' \<mapsto> ''https://host_cc454c.example.com:8065/api''])"
  by (simp add: pass_defs re_defs url_pattern_def obfuscateURL_def hash_host)

lemma pass_token:
  "apply_rule token_pattern obfuscateToken
     (''Connected from XXX.XXX.XXX.2a3 as user_8c6976@domain_a379a6.com via https://host_cc454c.example.com:8065/api'', c)
   = (''Connected from XXX.XXX.XXX.2a3 as user_8c6976@domain_a379a6.com via https://host_cc454c.example.com:8065/api'', c)"
  by (simp add: pass_defs re_defs token_pattern_def)

lemma pass_userid:
  "apply_rule userid_pattern obfuscateID
     (''Connected from XXX.XXX.XXX.2a3 as user_8c6976@domain_a379a6.com via https://host_cc454c.example.com:8065/api'', c)
   = (''Connected from XXX.XXX.XXX.2a3 as user_8c6976@domain_a379a6.com via https://host_cc454c.example.com:8065/api'', c)"
  by (simp add: pass_defs re_defs userid_pattern_def)

text \<open>
  On the URL as the file has it, \<^verbatim>\<open>obfuscateURL\<close> keeps the address as its IP
  placeholder; this is what the structured-data redactor gives for a field with
  this value.
\<close>

lemma raw_url_keeps_ip_placeholder:
  "fst (obfuscateURL Map.empty ''https://192.168.1.100:8065/api'') = ''https://XXX.XXX.XXX.2a3:8065/api''"
  by (simp add: pass_defs re_defs obfuscateURL_def obfuscateIPAddress_def hash_ip)

text \<open>
  Claim C1 does not hold. On the line of the claim, from an empty cache, the IPv4
  rule rewrites both occurrences of \<^verbatim>\<open>192.168.1.100\<close> to \<^verbatim>\<open>XXX.XXX.XXX.2a3\<close> and
  the email rule rewrites the address to \<^verbatim>\<open>user_8c6976@domain_a379a6.com\<close>; the
  URL rule then finds \<^verbatim>\<open>https://XXX.XXX.XXX.2a3:8065/api\<close>, whose host does not
  start with a digit, so \<^verbatim>\<open>obfuscateURL\<close> takes it for a domain and replaces it by
  \<^verbatim>\<open>host_cc454c.example.com\<close>. In the output line the address inside the URL is
  not the placeholder of the standalone address.
\<close>

theorem url_host_masked_twice:
  "obfuscateLogText Map.empty
      ''Connected from 192.168.1.100 as admin@example.com via https://192.168.1.100:8065/api''
   = (''Connected from XXX.XXX.XXX.2a3 as user_8c6976@domain_a379a6.com via https://host_cc454c.example.com:8065/api'',
      [''192.168.1.100'' \<mapsto> ''XXX.XXX.XXX.2a3'',
       ''admin@example.com'' \<mapsto> ''user_8c6976@domain_a379a6.com'',
       ''https://XXX.XXX.XXX.2a3:8065/api'' \<mapsto> ''https://host_cc454c.example.com:8065/api''])"
  unfolding obfuscateLogText_def
  by (simp only: pass_ipv4 pass_email pass_url pass_token pass_userid)

end
